theory Spec2Isabelle
  imports Main
begin

section \<open>The managed heap of the virtual machine (vm/heap.h, vm/heap.cc)\<close>

text \<open>
  This theory embeds the semispace heap of \<^verbatim>\<open>src/vm/heap.cc\<close> and
  \<^verbatim>\<open>src/vm/heap.h\<close>. The embedding is of the DEBUG build on a 64-bit
  target: every \<^verbatim>\<open>ASSERT\<close> and \<^verbatim>\<open>DEBUG_ASSERT\<close> of the source is
  a branch that ends the run with \<open>AssertFailed\<close>, and the code under
  \<^verbatim>\<open>#if defined(DEBUG)\<close> is part of the model. The tracing flags
  (\<^verbatim>\<open>REPORT_GC\<close>, \<^verbatim>\<open>TRACE_GROWTH\<close>, \<^verbatim>\<open>TRACE_BECOME\<close>) only print and are
  left out; \<^verbatim>\<open>LOOKUP_CACHE\<close> and \<^verbatim>\<open>RECYCLE_ACTIVATIONS\<close> are on.
\<close>

subsection \<open>Errors\<close>

datatype error =
    Fatal string
  | AssertFailed
  | Fault
  | OutOfBounds
  | Overflow
  | Diverges

text \<open>
  \<open>Fatal\<close> is \<^verbatim>\<open>FATAL\<close>/\<^verbatim>\<open>FATAL1\<close>; \<open>AssertFailed\<close> a failed assertion;
  \<open>Fault\<close> a read or write through a reference that does not denote an object
  (undefined behaviour in C++); \<open>OutOfBounds\<close> a write past the last element of an
  array; \<open>Overflow\<close> a signed overflow of an \<^verbatim>\<open>intptr_t\<close>; \<open>Diverges\<close> a loop
  that has stopped making progress and so never returns.
\<close>

subsection \<open>Constants of vm/globals.h and vm/object.h\<close>

text \<open>
  Modelled from the spec: \<^verbatim>\<open>vm/globals.h\<close> and \<^verbatim>\<open>vm/object.h\<close> are not among
  the sources, so the constants they declare are fixed here. The spec names them
  (\<^verbatim>\<open>kObjectAlignment\<close>, \<^verbatim>\<open>kNewObjectAlignmentOffset\<close>, the class ids) without
  giving values; the values below are those of a 64-bit build, and the development
  relies only on the class ids being pairwise distinct, on
  \<open>kNewObjectAlignmentOffset < kObjectAlignment\<close> and on \<open>0 < kNewObjectAlignmentOffset\<close>.
\<close>

definition kWordSize :: nat where "kWordSize = 8"
definition kObjectAlignment :: nat where "kObjectAlignment = 2 * kWordSize"
definition kNewObjectAlignmentOffset :: nat where "kNewObjectAlignmentOffset = kWordSize"
definition MB :: nat where "MB = 1024 * 1024"
definition kInitialSemispaceSize :: nat where "kInitialSemispaceSize = kWordSize * MB"
definition kMaxSemispaceSize :: nat where "kMaxSemispaceSize = 16 * kWordSize * MB"
definition kIntptrMax :: nat where "kIntptrMax = 2 ^ 63 - 1"

definition kIllegalCid :: nat where "kIllegalCid = 0"
definition kForwardingCorpseCid :: nat where "kForwardingCorpseCid = 1"
definition kFirstLegalCid :: nat where "kFirstLegalCid = 2"
definition kArrayCid :: nat where "kArrayCid = 9"
definition kWeakArrayCid :: nat where "kWeakArrayCid = 10"
definition kEphemeronCid :: nat where "kEphemeronCid = 11"
definition kFirstRegularObjectCid :: nat where "kFirstRegularObjectCid = 14"

subsection \<open>References and objects\<close>

text \<open>
  Modelled from the spec: a reference (\<^verbatim>\<open>Object*\<close>) is a tagged word, either an
  immediate small integer or a heap reference. \<open>HeapObject a\<close> is the reference
  \<^verbatim>\<open>Object::FromAddr(a)\<close> to the object whose header is at address \<open>a\<close>;
  the null pointer has the small-integer tag and is \<open>SmallInteger 0\<close>.
\<close>

datatype oop = SmallInteger int | HeapObject nat

definition NULL :: oop where "NULL = SmallInteger 0"

fun IsImmediateObject :: "oop \<Rightarrow> bool" where
  "IsImmediateObject (SmallInteger v) = True"
| "IsImmediateObject (HeapObject a) = False"

fun IsHeapObject :: "oop \<Rightarrow> bool" where
  "IsHeapObject (SmallInteger v) = False"
| "IsHeapObject (HeapObject a) = True"

text \<open>
  Modelled from the spec: objects of the semispaces satisfy
  \<^verbatim>\<open>addr & alignMask == kNewObjectAlignmentOffset\<close>; every other reference is an
  immediate or an old object.
\<close>

fun IsImmediateOrOldObject :: "oop \<Rightarrow> bool" where
  "IsImmediateOrOldObject (SmallInteger v) = True"
| "IsImmediateOrOldObject (HeapObject a) = (a mod kObjectAlignment \<noteq> kNewObjectAlignmentOffset)"

fun Addr :: "oop \<Rightarrow> nat" where
  "Addr (HeapObject a) = a"
| "Addr (SmallInteger v) = 0"

text \<open>
  Modelled from the spec: an object is its header fields (class id, heap size,
  identity hash), its pointer slots (the range \<^verbatim>\<open>Pointers(&from, &to)\<close> visits), its
  raw payload bytes, and, for a forwarding corpse, the target. The elements of an
  \<^verbatim>\<open>Array\<close> or \<^verbatim>\<open>WeakArray\<close> are its slots and \<^verbatim>\<open>Size()\<close> is their number; the
  key, value and finalizer of an \<^verbatim>\<open>Ephemeron\<close> are its slots 0, 1 and 2. A corpse
  keeps the slots of the object it replaces (the source reads \<^verbatim>\<open>id()\<close> of a
  corpse).
\<close>

record object =
  cid :: nat
  heap_size :: nat
  identity_hash :: nat
  slots :: "oop list"
  payload :: "nat list"
  target :: oop

text \<open>
  A cell of memory holds the object that starts at that address. A header whose mark
  bit is set is not a header but the forwarding pointer to the new address
  (\<^verbatim>\<open>SetForwarded\<close>).
\<close>

datatype cell = Object object | ForwardingHeader nat

type_synonym memory = "nat \<Rightarrow> cell option"

text \<open>The memory that holds the listed cells and nothing else.\<close>

definition cells :: "(nat \<times> cell) list \<Rightarrow> memory" where
  "cells xs = map_of xs"

subsection \<open>The heap\<close>

text \<open>
  Modelled from the spec: a semispace is a single contiguous mapping
  (\<^verbatim>\<open>vm/virtual_memory.h\<close> is not among the sources) with a base and a size.
\<close>

record Semispace =
  memory_base :: nat
  memory_size :: nat

definition limit :: "Semispace \<Rightarrow> nat" where
  "limit sp = memory_base sp + memory_size sp"

definition object_start :: "Semispace \<Rightarrow> nat" where
  "object_start sp = memory_base sp + kNewObjectAlignmentOffset"

text \<open>
  A member \<^verbatim>\<open>x_\<close> of the C++ class is the field \<open>x_f\<close> of the record (a name
  of Isabelle cannot end with an underscore). The intrusive lists of ephemerons and weak arrays (the \<^verbatim>\<open>next\<close> field of the
  objects, declared in \<^verbatim>\<open>vm/object.h\<close>) are kept as lists of addresses, the head
  first. The handles are pointers to variables of the interpreter; \<open>handles_f\<close> holds
  the contents of these variables. \<open>vm_brk\<close> is the state of the virtual-memory
  adaptor: the lowest address it has not handed out yet.
\<close>

record Heap =
  top_f :: nat
  end_f :: nat
  to_f :: Semispace
  from_f :: Semispace
  ephemeron_list_f :: "nat list"
  weak_list_f :: "nat list"
  class_table_f :: "oop list"
  class_table_capacity_f :: nat
  class_table_top_f :: nat
  class_table_free_f :: int
  object_store_f :: oop
  current_activation_f :: oop
  recycle_list_f :: oop
  lookup_cache_f :: "oop list"
  handles_f :: "oop list"
  handles_top_f :: nat
  mem :: memory
  vm_brk :: nat


definition used :: "Heap \<Rightarrow> nat" where
  "used s = top_f s - object_start (to_f s)"

subsection \<open>Semispaces and the virtual-memory adaptor\<close>

definition RoundUp :: "nat \<Rightarrow> nat \<Rightarrow> nat" where
  "RoundUp x n = ((x + n - 1) div n) * n"

definition unmap :: "nat \<Rightarrow> nat \<Rightarrow> memory \<Rightarrow> memory" where
  "unmap lo hi m = (\<lambda>x. if lo \<le> x \<and> x < hi then None else m x)"

text \<open>
  Modelled from the spec: \<^verbatim>\<open>VirtualMemory::Allocate(size)\<close> obtains an aligned
  mapping of exactly \<open>size\<close> bytes. The adaptor of the model hands out address
  ranges in increasing order and never hands out an address twice. A fresh mapping
  holds no object (\<^verbatim>\<open>MarkUnallocated\<close> fills it with \<^verbatim>\<open>kUnallocatedByte\<close>).
\<close>

definition Semispace_Allocate :: "nat \<Rightarrow> Heap \<Rightarrow> Semispace \<times> Heap" where
  "Semispace_Allocate n s =
     (let b = RoundUp (vm_brk s) kObjectAlignment in
      (\<lparr>memory_base = b, memory_size = n\<rparr>,
       s\<lparr>vm_brk := b + n, mem := unmap b (b + n) (mem s)\<rparr>))"

definition Semispace_Free :: "Semispace \<Rightarrow> Heap \<Rightarrow> Heap" where
  "Semispace_Free sp s = s\<lparr>mem := unmap (memory_base sp) (limit sp) (mem s)\<rparr>"

definition MarkUnallocated :: "Semispace \<Rightarrow> Heap \<Rightarrow> Heap" where
  "MarkUnallocated sp s = s\<lparr>mem := unmap (memory_base sp) (limit sp) (mem s)\<rparr>"

definition InFromSpace :: "oop \<Rightarrow> Heap \<Rightarrow> bool" where
  "InFromSpace obj s =
     (IsHeapObject obj \<and> memory_base (from_f s) \<le> Addr obj \<and> Addr obj < limit (from_f s))"

definition InToSpace :: "oop \<Rightarrow> Heap \<Rightarrow> bool" where
  "InToSpace obj s =
     (IsHeapObject obj \<and> memory_base (to_f s) \<le> Addr obj \<and> Addr obj < limit (to_f s))"

subsection \<open>Reading and writing objects\<close>

definition object_at :: "Heap \<Rightarrow> nat \<Rightarrow> error + object" where
  "object_at s a = (case mem s a of Some (Object obj) \<Rightarrow> Inr obj | _ \<Rightarrow> Inl Fault)"

definition deref :: "Heap \<Rightarrow> oop \<Rightarrow> error + object" where
  "deref s p = (case p of SmallInteger v \<Rightarrow> Inl Fault | HeapObject a \<Rightarrow> object_at s a)"

text \<open>
  A pointer to a slot (\<^verbatim>\<open>Object**\<close>): one of the two root members of the heap, the
  variable a handle points to, or a pointer slot of the object at an address.
\<close>

datatype ptr = object_store_ptr | current_activation_ptr | handle_ptr nat | slot_ptr nat nat

fun load :: "ptr \<Rightarrow> Heap \<Rightarrow> error + oop" where
  "load object_store_ptr s = Inr (object_store_f s)"
| "load current_activation_ptr s = Inr (current_activation_f s)"
| "load (handle_ptr i) s = (if i < length (handles_f s) then Inr (handles_f s ! i) else Inl Fault)"
| "load (slot_ptr a i) s =
     (case object_at s a of Inl e \<Rightarrow> Inl e
      | Inr obj \<Rightarrow> if i < length (slots obj) then Inr (slots obj ! i) else Inl OutOfBounds)"

fun store :: "ptr \<Rightarrow> oop \<Rightarrow> Heap \<Rightarrow> error + Heap" where
  "store object_store_ptr v s = Inr (s\<lparr>object_store_f := v\<rparr>)"
| "store current_activation_ptr v s = Inr (s\<lparr>current_activation_f := v\<rparr>)"
| "store (handle_ptr i) v s =
     (if i < length (handles_f s) then Inr (s\<lparr>handles_f := (handles_f s)[i := v]\<rparr>) else Inl Fault)"
| "store (slot_ptr a i) v s =
     (case object_at s a of Inl e \<Rightarrow> Inl e
      | Inr obj \<Rightarrow>
          if i < length (slots obj)
          then Inr (s\<lparr>mem := (mem s)(a \<mapsto> Object (obj\<lparr>slots := (slots obj)[i := v]\<rparr>))\<rparr>)
          else Inl OutOfBounds)"

text \<open>
  Modelled from the spec: the object store is an array of well-known roots, among
  them \<open>nil\<close>; the position of \<open>nil\<close> in it and the position of the class id in a
  class (\<^verbatim>\<open>Behavior::id()\<close>) are declared in \<^verbatim>\<open>vm/object.h\<close>.
\<close>

definition kNilIndex :: nat where "kNilIndex = 0"
definition kBehaviorIdIndex :: nat where "kBehaviorIdIndex = 4"

definition element :: "oop \<Rightarrow> nat \<Rightarrow> Heap \<Rightarrow> error + oop" where
  "element arr i s =
     (case arr of SmallInteger v \<Rightarrow> Inl Fault | HeapObject a \<Rightarrow> load (slot_ptr a i) s)"

definition set_element :: "oop \<Rightarrow> nat \<Rightarrow> oop \<Rightarrow> Heap \<Rightarrow> error + Heap" where
  "set_element arr i v s =
     (case arr of SmallInteger w \<Rightarrow> Inl Fault | HeapObject a \<Rightarrow> store (slot_ptr a i) v s)"

definition nil_obj :: "Heap \<Rightarrow> error + oop" where
  "nil_obj s = element (object_store_f s) kNilIndex s"

definition Behavior_id :: "oop \<Rightarrow> Heap \<Rightarrow> error + oop" where
  "Behavior_id cls s = element cls kBehaviorIdIndex s"

definition Behavior_set_id :: "oop \<Rightarrow> oop \<Rightarrow> Heap \<Rightarrow> error + Heap" where
  "Behavior_set_id cls v s = set_element cls kBehaviorIdIndex v s"

definition IsForwardingCorpse :: "oop \<Rightarrow> Heap \<Rightarrow> error + bool" where
  "IsForwardingCorpse p s =
     (case p of SmallInteger v \<Rightarrow> Inr False
      | HeapObject a \<Rightarrow>
          (case object_at s a of Inl e \<Rightarrow> Inl e | Inr obj \<Rightarrow> Inr (cid obj = kForwardingCorpseCid)))"

definition SmallInteger_value :: "oop \<Rightarrow> error + int" where
  "SmallInteger_value p = (case p of SmallInteger v \<Rightarrow> Inr v | HeapObject a \<Rightarrow> Inl AssertFailed)"

subsection \<open>The allocator\<close>

definition TryAllocate :: "nat \<Rightarrow> Heap \<Rightarrow> error + nat \<times> Heap" where
  "TryAllocate n s =
     (if n mod kObjectAlignment \<noteq> 0 then Inl AssertFailed
      else
        let result = top_f s;
            remaining = int (end_f s) - int (top_f s)
        in if remaining < int n then Inr (0, s)
           else if result mod kObjectAlignment \<noteq> kNewObjectAlignmentOffset then Inl AssertFailed
           else Inr (result, s\<lparr>top_f := top_f s + n\<rparr>))"

subsection \<open>Forwarding headers\<close>

definition IsForwarded :: "nat \<Rightarrow> Heap \<Rightarrow> error + bool" where
  "IsForwarded addr s =
     (if addr mod kWordSize \<noteq> 0 then Inl AssertFailed
      else case mem s addr of
             None \<Rightarrow> Inl Fault
           | Some (ForwardingHeader t) \<Rightarrow> Inr True
           | Some (Object obj) \<Rightarrow> Inr False)"

definition ForwardingTarget :: "nat \<Rightarrow> Heap \<Rightarrow> error + oop" where
  "ForwardingTarget addr s =
     (case mem s addr of
        Some (ForwardingHeader t) \<Rightarrow> Inr (HeapObject t)
      | _ \<Rightarrow> Inl AssertFailed)"

definition SetForwarded :: "nat \<Rightarrow> nat \<Rightarrow> Heap \<Rightarrow> error + Heap" where
  "SetForwarded old_addr new_addr s =
     (case IsForwarded old_addr s of
        Inl e \<Rightarrow> Inl e
      | Inr True \<Rightarrow> Inl AssertFailed
      | Inr False \<Rightarrow> Inr (s\<lparr>mem := (mem s)(old_addr \<mapsto> ForwardingHeader new_addr)\<rparr>))"

definition copy_bytes :: "nat \<Rightarrow> nat \<Rightarrow> nat \<Rightarrow> memory \<Rightarrow> memory" where
  "copy_bytes dst src n m = (\<lambda>x. if dst \<le> x \<and> x < dst + n then m (src + (x - dst)) else m x)"

definition memcpy :: "nat \<Rightarrow> nat \<Rightarrow> nat \<Rightarrow> Heap \<Rightarrow> Heap" where
  "memcpy dst src n s = s\<lparr>mem := copy_bytes dst src n (mem s)\<rparr>"

subsection \<open>Scavenging a pointer\<close>

text \<open>
  \<^verbatim>\<open>Heap::ScavengePointer\<close> and \<^verbatim>\<open>Heap::ScavengeClass\<close> share the move of an
  object that is not forwarded yet: allocate in to-space, copy, install the
  forwarding header.
\<close>

definition MoveToSpace :: "nat \<Rightarrow> Heap \<Rightarrow> error + nat \<times> Heap" where
  "MoveToSpace old_target_addr s =
     (case object_at s old_target_addr of
        Inl e \<Rightarrow> Inl e
      | Inr obj \<Rightarrow>
          (case TryAllocate (heap_size obj) s of
             Inl e \<Rightarrow> Inl e
           | Inr (new_target_addr, s1) \<Rightarrow>
               if new_target_addr = 0 then Inl AssertFailed
               else
                 (case SetForwarded old_target_addr new_target_addr
                         (memcpy new_target_addr old_target_addr (heap_size obj) s1) of
                    Inl e \<Rightarrow> Inl e
                  | Inr s2 \<Rightarrow> Inr (new_target_addr, s2))))"

definition ScavengePointer :: "ptr \<Rightarrow> Heap \<Rightarrow> error + Heap" where
  "ScavengePointer p s =
     (case load p s of
        Inl e \<Rightarrow> Inl e
      | Inr old_target \<Rightarrow>
          if IsImmediateOrOldObject old_target then Inr s
          else if \<not> InFromSpace old_target s then Inl AssertFailed
          else
            (case IsForwarded (Addr old_target) s of
               Inl e \<Rightarrow> Inl e
             | Inr True \<Rightarrow>
                 (case ForwardingTarget (Addr old_target) s of
                    Inl e \<Rightarrow> Inl e
                  | Inr new_target \<Rightarrow>
                      if \<not> InToSpace new_target s then Inl AssertFailed
                      else store p new_target s)
             | Inr False \<Rightarrow>
                 (case MoveToSpace (Addr old_target) s of
                    Inl e \<Rightarrow> Inl e
                  | Inr (new_target_addr, s1) \<Rightarrow>
                      if \<not> InToSpace (HeapObject new_target_addr) s1 then Inl AssertFailed
                      else store p (HeapObject new_target_addr) s1)))"

definition ScavengeClass :: "nat \<Rightarrow> Heap \<Rightarrow> error + Heap" where
  "ScavengeClass c s =
     (if \<not> c < class_table_top_f s then Inl AssertFailed
      else if \<not> c < length (class_table_f s) then Inl Fault
      else
        let old_target = class_table_f s ! c in
        if IsImmediateOrOldObject old_target then Inr s
        else if \<not> InFromSpace old_target s then Inl AssertFailed
        else
          (case IsForwarded (Addr old_target) s of
             Inl e \<Rightarrow> Inl e
           | Inr True \<Rightarrow> Inr s
           | Inr False \<Rightarrow>
               (case MoveToSpace (Addr old_target) s of
                  Inl e \<Rightarrow> Inl e
                | Inr (new_target_addr, s1) \<Rightarrow> Inr s1)))"

fun for_each :: "('a \<Rightarrow> Heap \<Rightarrow> error + Heap) \<Rightarrow> 'a list \<Rightarrow> Heap \<Rightarrow> error + Heap" where
  "for_each f [] s = Inr s"
| "for_each f (x # xs) s = (case f x s of Inl e \<Rightarrow> Inl e | Inr s1 \<Rightarrow> for_each f xs s1)"

definition ProcessRoots :: "Heap \<Rightarrow> error + Heap" where
  "ProcessRoots s =
     (case ScavengePointer object_store_ptr s of
        Inl e \<Rightarrow> Inl e
      | Inr s1 \<Rightarrow>
          (case ScavengePointer current_activation_ptr s1 of
             Inl e \<Rightarrow> Inl e
           | Inr s2 \<Rightarrow>
               for_each (\<lambda>i. ScavengePointer (handle_ptr i)) [0..<handles_top_f s2] s2))"


subsection \<open>The lists of ephemerons and weak arrays\<close>

definition AddToEphemeronList :: "nat \<Rightarrow> Heap \<Rightarrow> error + Heap" where
  "AddToEphemeronList survivor s =
     (if \<not> InToSpace (HeapObject survivor) s then Inl AssertFailed
      else Inr (s\<lparr>ephemeron_list_f := survivor # ephemeron_list_f s\<rparr>))"

definition AddToWeakList :: "nat \<Rightarrow> Heap \<Rightarrow> error + Heap" where
  "AddToWeakList survivor s =
     (if \<not> InToSpace (HeapObject survivor) s then Inl AssertFailed
      else Inr (s\<lparr>weak_list_f := survivor # weak_list_f s\<rparr>))"

subsection \<open>The Cheney scan\<close>

text \<open>
  One round of the loop of \<^verbatim>\<open>Heap::ProcessToSpace\<close>, up to the advance of
  \<open>scan\<close>: the class of the object is scavenged, then the object is linked into a
  list or its pointer slots are scavenged.
\<close>

definition ScanObject :: "nat \<Rightarrow> object \<Rightarrow> Heap \<Rightarrow> error + Heap" where
  "ScanObject scan obj s =
     (if cid obj = kWeakArrayCid then AddToWeakList scan s
      else if cid obj = kEphemeronCid then AddToEphemeronList scan s
      else for_each (\<lambda>i. ScavengePointer (slot_ptr scan i)) [0..<length (slots obj)] s)"

definition ProcessObject :: "nat \<Rightarrow> Heap \<Rightarrow> error + Heap" where
  "ProcessObject scan s =
     (case object_at s scan of
        Inl e \<Rightarrow> Inl e
      | Inr obj \<Rightarrow>
          (case ScavengeClass (cid obj) s of
             Inl e \<Rightarrow> Inl e
           | Inr s1 \<Rightarrow> ScanObject scan obj s1))"

text \<open>
  What every step of a collection leaves alone: the two semispaces, \<open>end_f\<close> and the
  virtual-memory adaptor. \<open>top_f\<close> only grows, by multiples of the object
  alignment, and never past \<open>end_f\<close>.
\<close>

definition space_bound :: "Heap \<Rightarrow> nat" where
  "space_bound s = max (top_f s) (end_f s)"

definition grows :: "Heap \<Rightarrow> Heap \<Rightarrow> bool" where
  "grows s s1 =
     (to_f s1 = to_f s \<and> from_f s1 = from_f s \<and> end_f s1 = end_f s \<and> vm_brk s1 = vm_brk s \<and>
      top_f s \<le> top_f s1 \<and> space_bound s1 = space_bound s \<and>
      kObjectAlignment dvd (top_f s1 - top_f s))"

lemma grows_refl: "grows s s"
  by (simp add: grows_def)

lemma dvd_diff_chain:
  fixes a b c k :: nat
  assumes "a \<le> b" and "b \<le> c" and "k dvd b - a" and "k dvd c - b"
  shows "k dvd c - a"
proof -
  from assms(1) obtain x where x: "b = a + x" by (auto simp: le_iff_add)
  from assms(2) obtain y where y: "c = b + y" by (auto simp: le_iff_add)
  from assms(3,4) x y have "k dvd x" and "k dvd y" by simp_all
  then have "k dvd x + y" by (rule dvd_add)
  moreover have "c - a = x + y" using x y by simp
  ultimately show ?thesis by simp
qed

lemma grows_trans:
  assumes "grows s s1" and "grows s1 s2"
  shows "grows s s2"
proof -
  from assms have "kObjectAlignment dvd top_f s2 - top_f s"
    unfolding grows_def by (blast intro: dvd_diff_chain)
  with assms show ?thesis unfolding grows_def by auto
qed

lemma TryAllocate_grows: "TryAllocate n s = Inr (a, s1) \<Longrightarrow> grows s s1"
  by (auto simp: TryAllocate_def grows_def space_bound_def Let_def split: if_splits)

lemma store_grows: "store p v s = Inr s1 \<Longrightarrow> grows s s1"
  by (cases p) (auto simp: grows_def space_bound_def split: if_splits sum.splits)

lemma SetForwarded_grows: "SetForwarded a b s = Inr s1 \<Longrightarrow> grows s s1"
  by (auto simp: SetForwarded_def grows_def space_bound_def split: sum.splits bool.splits if_splits)

lemma memcpy_grows: "grows s (memcpy a b n s)"
  by (simp add: memcpy_def grows_def space_bound_def)

lemma MoveToSpace_Inr:
  "MoveToSpace a s = Inr (b, s1) \<Longrightarrow>
     \<exists>obj s0. object_at s a = Inr obj \<and> TryAllocate (heap_size obj) s = Inr (b, s0) \<and> b \<noteq> 0 \<and>
       SetForwarded a b (memcpy b a (heap_size obj) s0) = Inr s1"
  by (simp add: MoveToSpace_def split: sum.splits prod.splits if_splits)

lemma MoveToSpace_grows:
  assumes "MoveToSpace a s = Inr (b, s1)"
  shows "grows s s1"
proof -
  from MoveToSpace_Inr[OF assms] obtain obj :: object and s0
    where t: "TryAllocate (heap_size obj) s = Inr (b, s0)"
    and f: "SetForwarded a b (memcpy b a (heap_size obj) s0) = Inr s1"
    by blast
  from TryAllocate_grows[OF t] memcpy_grows SetForwarded_grows[OF f] show ?thesis
    by (blast intro: grows_trans)
qed

lemma ScavengePointer_grows:
  assumes "ScavengePointer p s = Inr s1"
  shows "grows s s1"
  using assms unfolding ScavengePointer_def
  by (auto split: sum.splits if_splits bool.splits
           intro: grows_refl store_grows grows_trans[OF MoveToSpace_grows store_grows])

lemma ScavengeClass_grows: "ScavengeClass c s = Inr s1 \<Longrightarrow> grows s s1"
  unfolding ScavengeClass_def Let_def
  by (auto split: sum.splits if_splits bool.splits intro: grows_refl MoveToSpace_grows)

lemma for_each_grows:
  assumes "\<And>x s s1. f x s = Inr s1 \<Longrightarrow> grows s s1"
  shows "for_each f xs s = Inr s1 \<Longrightarrow> grows s s1"
proof (induction xs arbitrary: s)
  case Nil
  then show ?case by (simp add: grows_refl)
next
  case (Cons x xs)
  then obtain s2 where a: "f x s = Inr s2" and b: "for_each f xs s2 = Inr s1"
    by (auto split: sum.splits)
  from assms[OF a] Cons.IH[OF b] show ?case by (rule grows_trans)
qed

lemma for_each_ScavengePointer_grows:
  "for_each (\<lambda>i. ScavengePointer (g i)) xs s = Inr s1 \<Longrightarrow> grows s s1"
  by (rule for_each_grows[where f = "\<lambda>i. ScavengePointer (g i)"]) (rule ScavengePointer_grows)

lemma AddToWeakList_grows: "AddToWeakList a s = Inr s1 \<Longrightarrow> grows s s1"
  by (auto simp: AddToWeakList_def grows_def space_bound_def split: if_splits)

lemma AddToEphemeronList_grows: "AddToEphemeronList a s = Inr s1 \<Longrightarrow> grows s s1"
  by (auto simp: AddToEphemeronList_def grows_def space_bound_def split: if_splits)

lemma ScanObject_grows: "ScanObject scan obj s = Inr s1 \<Longrightarrow> grows s s1"
  unfolding ScanObject_def
  using AddToWeakList_grows[of scan s s1] AddToEphemeronList_grows[of scan s s1]
    for_each_ScavengePointer_grows[of "slot_ptr scan" "[0..<length (slots obj)]" s s1]
  by (auto split: if_splits)

lemma ProcessObject_Inr:
  "ProcessObject scan s = Inr s1 \<Longrightarrow>
     \<exists>obj s0. object_at s scan = Inr obj \<and> ScavengeClass (cid obj) s = Inr s0 \<and>
       ScanObject scan obj s0 = Inr s1"
  by (simp add: ProcessObject_def split: sum.splits)

lemma ProcessObject_grows:
  assumes "ProcessObject scan s = Inr s1"
  shows "grows s s1"
proof -
  from ProcessObject_Inr[OF assms] obtain obj :: object and s0
    where a: "ScavengeClass (cid obj) s = Inr s0"
    and b: "ScanObject scan obj s0 = Inr s1"
    by blast
  from ScavengeClass_grows[OF a] ScanObject_grows[OF b] show ?thesis by (rule grows_trans)
qed

text \<open>
  \<^verbatim>\<open>Heap::ProcessToSpace\<close>. An object of heap size 0 would be processed again and
  again: the loop would never return.
\<close>

function ProcessToSpace :: "nat \<Rightarrow> Heap \<Rightarrow> error + nat \<times> Heap" where
  "ProcessToSpace scan s =
     (if scan < top_f s then
        (case ProcessObject scan s of
           Inl e \<Rightarrow> Inl e
         | Inr s1 \<Rightarrow>
             (case object_at s1 scan of
                Inl e \<Rightarrow> Inl e
              | Inr obj \<Rightarrow>
                  if heap_size obj = 0 then Inl Diverges
                  else ProcessToSpace (scan + heap_size obj) s1))
      else Inr (scan, s))"
  by pat_completeness auto
termination
proof (relation "measure (\<lambda>(scan, s). space_bound s - scan)")
  show "wf (measure (\<lambda>(scan, s). space_bound s - scan))" by simp
next
  fix scan :: nat and s s1 :: Heap and obj :: object
  assume "scan < top_f s" and "ProcessObject scan s = Inr s1" and "heap_size obj \<noteq> 0"
  then show "((scan + heap_size obj, s1), (scan, s)) \<in> measure (\<lambda>(scan, s). space_bound s - scan)"
    using ProcessObject_grows[of scan s s1] by (auto simp: grows_def space_bound_def)
qed

declare ProcessToSpace.simps [simp del]


subsection \<open>Ephemerons\<close>

definition key_ptr :: "nat \<Rightarrow> ptr" where "key_ptr a = slot_ptr a 0"
definition value_ptr :: "nat \<Rightarrow> ptr" where "value_ptr a = slot_ptr a 1"
definition finalizer_ptr :: "nat \<Rightarrow> ptr" where "finalizer_ptr a = slot_ptr a 2"

text \<open>
  The test of \<^verbatim>\<open>Heap::ProcessEphemeronList\<close> on the key of a survivor:
  \<^verbatim>\<open>key()->IsImmediateOrOldObject() || IsForwarded(key()->Addr())\<close>.
\<close>

definition KeyIsKnownLive :: "nat \<Rightarrow> Heap \<Rightarrow> error + bool" where
  "KeyIsKnownLive survivor s =
     (case load (key_ptr survivor) s of
        Inl e \<Rightarrow> Inl e
      | Inr key \<Rightarrow> if IsImmediateOrOldObject key then Inr True else IsForwarded (Addr key) s)"

definition ProcessEphemeron :: "nat \<Rightarrow> Heap \<Rightarrow> error + Heap" where
  "ProcessEphemeron survivor s =
     (case object_at s survivor of
        Inl e \<Rightarrow> Inl e
      | Inr obj \<Rightarrow>
          if cid obj \<noteq> kEphemeronCid then Inl AssertFailed
          else
            (case KeyIsKnownLive survivor s of
               Inl e \<Rightarrow> Inl e
             | Inr True \<Rightarrow>
                 (case ScavengePointer (key_ptr survivor) s of
                    Inl e \<Rightarrow> Inl e
                  | Inr s1 \<Rightarrow>
                      (case ScavengePointer (value_ptr survivor) s1 of
                         Inl e \<Rightarrow> Inl e
                       | Inr s2 \<Rightarrow> ScavengePointer (finalizer_ptr survivor) s2))
             | Inr False \<Rightarrow> AddToEphemeronList survivor s))"

definition ProcessEphemeronList :: "Heap \<Rightarrow> error + Heap" where
  "ProcessEphemeronList s =
     for_each ProcessEphemeron (ephemeron_list_f s) (s\<lparr>ephemeron_list_f := []\<rparr>)"

definition MournEphemeron :: "oop \<Rightarrow> nat \<Rightarrow> Heap \<Rightarrow> error + Heap" where
  "MournEphemeron nil survivor s =
     (case object_at s survivor of
        Inl e \<Rightarrow> Inl e
      | Inr obj \<Rightarrow>
          if cid obj \<noteq> kEphemeronCid then Inl AssertFailed
          else
            (case load (key_ptr survivor) s of
               Inl e \<Rightarrow> Inl e
             | Inr key \<Rightarrow>
                 if \<not> InFromSpace key s then Inl AssertFailed
                 else
                   (case store (key_ptr survivor) nil s of
                      Inl e \<Rightarrow> Inl e
                    | Inr s1 \<Rightarrow>
                        (case store (value_ptr survivor) nil s1 of
                           Inl e \<Rightarrow> Inl e
                         | Inr s2 \<Rightarrow> store (finalizer_ptr survivor) nil s2))))"

definition MournEphemeronList :: "Heap \<Rightarrow> error + Heap" where
  "MournEphemeronList s =
     (case nil_obj s of
        Inl e \<Rightarrow> Inl e
      | Inr nil \<Rightarrow> for_each (MournEphemeron nil) (ephemeron_list_f s) (s\<lparr>ephemeron_list_f := []\<rparr>))"

subsection \<open>Weak arrays\<close>

definition MournWeakPointer :: "ptr \<Rightarrow> Heap \<Rightarrow> error + Heap" where
  "MournWeakPointer p s =
     (case load p s of
        Inl e \<Rightarrow> Inl e
      | Inr old_target \<Rightarrow>
          if IsImmediateOrOldObject old_target then Inr s
          else if \<not> InFromSpace old_target s then Inl AssertFailed
          else
            (case IsForwarded (Addr old_target) s of
               Inl e \<Rightarrow> Inl e
             | Inr forwarded \<Rightarrow>
                 (case (if forwarded then ForwardingTarget (Addr old_target) s else nil_obj s) of
                    Inl e \<Rightarrow> Inl e
                  | Inr new_target \<Rightarrow>
                      if \<not> InToSpace new_target s then Inl AssertFailed
                      else store p new_target s)))"

definition MournWeakArray :: "nat \<Rightarrow> Heap \<Rightarrow> error + Heap" where
  "MournWeakArray survivor s =
     (case object_at s survivor of
        Inl e \<Rightarrow> Inl e
      | Inr obj \<Rightarrow>
          if cid obj \<noteq> kWeakArrayCid then Inl AssertFailed
          else for_each (\<lambda>i. MournWeakPointer (slot_ptr survivor i)) [0..<length (slots obj)] s)"

definition MournWeakList :: "Heap \<Rightarrow> error + Heap" where
  "MournWeakList s = for_each MournWeakArray (weak_list_f s) (s\<lparr>weak_list_f := []\<rparr>)"

subsection \<open>The class table after a scavenge\<close>

definition MournClassTableEntry :: "nat \<Rightarrow> Heap \<Rightarrow> error + Heap" where
  "MournClassTableEntry i s =
     (if \<not> i < length (class_table_f s) then Inl Fault
      else
        let old_target = class_table_f s ! i in
        if IsImmediateOrOldObject old_target then Inr s
        else if \<not> InFromSpace old_target s then Inl AssertFailed
        else
          (case IsForwarded (Addr old_target) s of
             Inl e \<Rightarrow> Inl e
           | Inr True \<Rightarrow>
               (case ForwardingTarget (Addr old_target) s of
                  Inl e \<Rightarrow> Inl e
                | Inr new_target \<Rightarrow>
                    if \<not> InToSpace new_target s then Inl AssertFailed
                    else Inr (s\<lparr>class_table_f := (class_table_f s)[i := new_target]\<rparr>))
           | Inr False \<Rightarrow>
               Inr (s\<lparr>class_table_f := (class_table_f s)[i := SmallInteger (class_table_free_f s)],
                       class_table_free_f := int i\<rparr>)))"

definition MournClassTable :: "Heap \<Rightarrow> error + Heap" where
  "MournClassTable s = for_each MournClassTableEntry [kFirstLegalCid..<class_table_top_f s] s"

definition ClearCaches :: "Heap \<Rightarrow> Heap" where
  "ClearCaches s = s\<lparr>lookup_cache_f := [], recycle_list_f := NULL\<rparr>"

subsection \<open>Flipping the semispaces\<close>

definition FlipSpaces :: "Heap \<Rightarrow> error + Heap" where
  "FlipSpaces s =
     (let s1 = s\<lparr>to_f := from_f s, from_f := to_f s\<rparr>;
          s2 = (if memory_size (to_f s1) < memory_size (from_f s1)
                then (case Semispace_Allocate (memory_size (from_f s1)) (Semispace_Free (to_f s1) s1) of
                        (sp, s') \<Rightarrow> s'\<lparr>to_f := sp\<rparr>)
                else s1);
          s3 = s2\<lparr>top_f := object_start (to_f s2), end_f := limit (to_f s2)\<rparr>
      in if top_f s3 mod kObjectAlignment \<noteq> kNewObjectAlignmentOffset then Inl AssertFailed
         else Inr s3)"


subsection \<open>A scavenge\<close>


lemma ProcessToSpace_grows:
  "ProcessToSpace scan s = Inr (scan1, s1) \<Longrightarrow>
     grows s s1 \<and> scan \<le> scan1 \<and> (scan < top_f s \<longrightarrow> scan < scan1)"
proof (induction scan s rule: ProcessToSpace.induct)
  case (1 scan s)
  show ?case
  proof (cases "scan < top_f s")
    case False
    with "1.prems" show ?thesis by (simp add: ProcessToSpace.simps[of scan s] grows_refl)
  next
    case True
    with "1.prems" obtain s0 and obj :: object
      where a: "ProcessObject scan s = Inr s0" and b: "object_at s0 scan = Inr obj"
        and c: "heap_size obj \<noteq> 0"
        and d: "ProcessToSpace (scan + heap_size obj) s0 = Inr (scan1, s1)"
      by (auto simp: ProcessToSpace.simps[of scan s] split: sum.splits if_splits)
    from "1.IH"[OF True a b c d] ProcessObject_grows[OF a] c True show ?thesis
      by (auto intro: grows_trans)
  qed
qed


lemma ProcessEphemeron_grows: "ProcessEphemeron a s = Inr s1 \<Longrightarrow> grows s s1"
  unfolding ProcessEphemeron_def
  by (auto split: sum.splits if_splits bool.splits)
     (blast intro: ScavengePointer_grows AddToEphemeronList_grows grows_trans)+

lemma ProcessEphemeronList_grows: 
  assumes a: "ProcessEphemeronList s = Inr s1" shows "grows s s1"
proof -
  have "grows (s\<lparr>ephemeron_list_f := []\<rparr>) s1"
    using a unfolding ProcessEphemeronList_def
    by (rule for_each_grows[where f = ProcessEphemeron, OF ProcessEphemeron_grows, rotated])
  then show "grows s s1" by (auto simp: grows_def space_bound_def)
qed


text \<open>
  The loop of \<^verbatim>\<open>Heap::Scavenge\<close> that alternates the Cheney scan and the
  processing of the ephemeron list.
\<close>

function ScavengeLoop :: "nat \<Rightarrow> Heap \<Rightarrow> error + Heap" where
  "ScavengeLoop scan s =
     (if scan < top_f s then
        (case ProcessToSpace scan s of
           Inl e \<Rightarrow> Inl e
         | Inr (scan1, s1) \<Rightarrow>
             (case ProcessEphemeronList s1 of
                Inl e \<Rightarrow> Inl e
              | Inr s2 \<Rightarrow> ScavengeLoop scan1 s2))
      else Inr s)"
  by pat_completeness auto
termination
proof (relation "measure (\<lambda>(scan, s). space_bound s - scan)")
  show "wf (measure (\<lambda>(scan, s). space_bound s - scan))" by simp
next
  fix scan scan1 :: nat and s s1 s2 :: Heap and x :: "nat \<times> Heap"
  assume a: "scan < top_f s" and b: "ProcessToSpace scan s = Inr x" and c: "(scan1, s1) = x"
    and d: "ProcessEphemeronList s1 = Inr s2"
  from b c have "ProcessToSpace scan s = Inr (scan1, s1)" by simp
  from ProcessToSpace_grows[OF this] ProcessEphemeronList_grows[OF d] a
  show "((scan1, s2), (scan, s)) \<in> measure (\<lambda>(scan, s). space_bound s - scan)"
    by (auto simp: grows_def space_bound_def)
qed

declare ScavengeLoop.simps [simp del]

text \<open>
  \<^verbatim>\<open>Heap::Scavenge\<close> up to the growth heuristic at its end.
\<close>

definition ScavengeCore :: "Heap \<Rightarrow> error + Heap" where
  "ScavengeCore s =
     (case FlipSpaces s of
        Inl e \<Rightarrow> Inl e
      | Inr s1 \<Rightarrow>
     (case ProcessRoots s1 of
        Inl e \<Rightarrow> Inl e
      | Inr s2 \<Rightarrow>
     (case ScavengeLoop (object_start (to_f s2)) s2 of
        Inl e \<Rightarrow> Inl e
      | Inr s3 \<Rightarrow>
     (case MournEphemeronList s3 of
        Inl e \<Rightarrow> Inl e
      | Inr s4 \<Rightarrow>
     (case MournWeakList s4 of
        Inl e \<Rightarrow> Inl e
      | Inr s5 \<Rightarrow>
     (case MournClassTable s5 of
        Inl e \<Rightarrow> Inl e
      | Inr s6 \<Rightarrow> Inr (MarkUnallocated (from_f s6) (ClearCaches s6))))))))"

lemma ProcessRoots_grows: "ProcessRoots s = Inr s1 \<Longrightarrow> grows s s1"
  unfolding ProcessRoots_def
  by (auto split: sum.splits)
     (blast intro: ScavengePointer_grows for_each_ScavengePointer_grows grows_trans)

lemma ScavengeLoop_grows: "ScavengeLoop scan s = Inr s1 \<Longrightarrow> grows s s1"
proof (induction scan s rule: ScavengeLoop.induct)
  case (1 scan s)
  show ?case
  proof (cases "scan < top_f s")
    case False
    with "1.prems" show ?thesis by (simp add: ScavengeLoop.simps[of scan s] grows_refl)
  next
    case True
    with "1.prems" obtain scan1 s0 s2
      where a: "ProcessToSpace scan s = Inr (scan1, s0)" and b: "ProcessEphemeronList s0 = Inr s2"
        and c: "ScavengeLoop scan1 s2 = Inr s1"
      by (auto simp: ScavengeLoop.simps[of scan s] split: sum.splits)
    from "1.IH"[OF True a _ b c] ProcessToSpace_grows[OF a] ProcessEphemeronList_grows[OF b]
    show ?thesis by (auto intro: grows_trans)
  qed
qed

lemma MournEphemeron_grows: "MournEphemeron nil a s = Inr s1 \<Longrightarrow> grows s s1"
  unfolding MournEphemeron_def
  by (auto split: sum.splits if_splits) (blast intro: store_grows grows_trans)

lemma MournEphemeronList_grows:
  assumes a: "MournEphemeronList s = Inr s1" shows "grows s s1"
proof -
  from a obtain nil where b: "for_each (MournEphemeron nil) (ephemeron_list_f s) (s\<lparr>ephemeron_list_f := []\<rparr>) = Inr s1"
    by (auto simp: MournEphemeronList_def split: sum.splits)
  have "grows (s\<lparr>ephemeron_list_f := []\<rparr>) s1"
    using b by (rule for_each_grows[where f = "MournEphemeron nil", OF MournEphemeron_grows, rotated])
  then show "grows s s1" by (auto simp: grows_def space_bound_def)
qed

lemma MournWeakPointer_grows: "MournWeakPointer p s = Inr s1 \<Longrightarrow> grows s s1"
  unfolding MournWeakPointer_def
  by (auto split: sum.splits if_splits intro: grows_refl store_grows)

lemma MournWeakArray_grows: "MournWeakArray a s = Inr s1 \<Longrightarrow> grows s s1"
  unfolding MournWeakArray_def
  by (auto split: sum.splits if_splits
      intro: for_each_grows[where f = "\<lambda>i. MournWeakPointer (slot_ptr a i)", OF MournWeakPointer_grows, rotated])

lemma MournWeakList_grows:
  assumes a: "MournWeakList s = Inr s1" shows "grows s s1"
proof -
  have "grows (s\<lparr>weak_list_f := []\<rparr>) s1"
    using a unfolding MournWeakList_def
    by (rule for_each_grows[where f = MournWeakArray, OF MournWeakArray_grows, rotated])
  then show "grows s s1" by (auto simp: grows_def space_bound_def)
qed

lemma MournClassTableEntry_grows: "MournClassTableEntry i s = Inr s1 \<Longrightarrow> grows s s1"
  unfolding MournClassTableEntry_def Let_def
  by (auto simp: grows_def space_bound_def split: sum.splits if_splits bool.splits)

lemma MournClassTable_grows: "MournClassTable s = Inr s1 \<Longrightarrow> grows s s1"
  unfolding MournClassTable_def
  by (rule for_each_grows[where f = MournClassTableEntry, OF MournClassTableEntry_grows, rotated])

lemma FlipSpaces_Inr:
  "FlipSpaces s = Inr s1 \<Longrightarrow>
     memory_size (to_f s1) = max (memory_size (to_f s)) (memory_size (from_f s)) \<and>
     from_f s1 = to_f s \<and> top_f s1 = object_start (to_f s1) \<and> end_f s1 = limit (to_f s1)"
  by (auto simp: FlipSpaces_def Let_def Semispace_Allocate_def Semispace_Free_def
           split: if_splits prod.splits)

lemma ScavengeCore_spaces:
  assumes "ScavengeCore s = Inr s1"
  shows "memory_size (to_f s1) = max (memory_size (to_f s)) (memory_size (from_f s)) \<and>
         from_f s1 = to_f s \<and> used s1 \<le> memory_size (to_f s1)"
proof -
  from assms obtain t1 t2 t3 t4 t5 t6
    where f: "FlipSpaces s = Inr t1" and r: "ProcessRoots t1 = Inr t2"
      and l: "ScavengeLoop (object_start (to_f t2)) t2 = Inr t3"
      and e: "MournEphemeronList t3 = Inr t4" and w: "MournWeakList t4 = Inr t5"
      and c: "MournClassTable t5 = Inr t6"
      and s1: "s1 = MarkUnallocated (from_f t6) (ClearCaches t6)"
    by (auto simp: ScavengeCore_def split: sum.splits)
  have g: "grows t1 t6"
    using ProcessRoots_grows[OF r] ScavengeLoop_grows[OF l] MournEphemeronList_grows[OF e]
      MournWeakList_grows[OF w] MournClassTable_grows[OF c]
    by (blast intro: grows_trans)
  from FlipSpaces_Inr[OF f] g s1 show ?thesis
    by (auto simp: grows_def space_bound_def used_def MarkUnallocated_def ClearCaches_def
          limit_def object_start_def)
qed

subsection \<open>Growing the heap\<close>

text \<open>
  The loop of \<^verbatim>\<open>Heap::Grow\<close> that doubles \<open>new_size\<close>. The sizes are
  \<^verbatim>\<open>intptr_t\<close>: doubling past \<open>kIntptrMax\<close> is a signed overflow, and doubling 0
  never ends.
\<close>

function Grow_new_size :: "nat \<Rightarrow> nat \<Rightarrow> nat \<Rightarrow> error + nat" where
  "Grow_new_size current_size size_requested new_size =
     (if int new_size - int current_size < int size_requested then
        (if new_size = 0 then Inl Diverges
         else if kIntptrMax < 2 * new_size then Inl Overflow
         else Grow_new_size current_size size_requested (2 * new_size))
      else Inr new_size)"
  by pat_completeness auto
termination
  by (relation "measure (\<lambda>(c, r, n). kIntptrMax + 1 - n)") auto

declare Grow_new_size.simps [simp del]

text \<open>
  \<^verbatim>\<open>Heap::Grow\<close> up to its call of \<^verbatim>\<open>Scavenge\<close>: the new size, the check against
  \<^verbatim>\<open>kMaxSemispaceSize\<close>, and the reallocation of from-space.
\<close>

definition Grow_from_space :: "nat \<Rightarrow> Heap \<Rightarrow> error + Heap" where
  "Grow_from_space size_requested s =
     (let current_size = memory_size (to_f s) in
      if kIntptrMax < current_size * 2 then Inl Overflow
      else
        (case Grow_new_size current_size size_requested (current_size * 2) of
           Inl e \<Rightarrow> Inl e
         | Inr new_size \<Rightarrow>
             if kMaxSemispaceSize < new_size
             then Inl (Fatal ''Growing really big. Runaway recursion?'')
             else (case Semispace_Allocate new_size (Semispace_Free (from_f s) s) of
                     (sp, s1) \<Rightarrow> Inr (s1\<lparr>from_f := sp\<rparr>))))"

lemma Grow_new_size_ge:
  "Grow_new_size c r n = Inr m \<Longrightarrow> n \<le> m \<and> int r \<le> int m - int c"
proof (induction c r n rule: Grow_new_size.induct)
  case (1 c r n)
  then show ?case
    by (simp add: Grow_new_size.simps[of c r n] split: if_splits)
qed

lemma Grow_from_space_Inr:
  "Grow_from_space r s = Inr s1 \<Longrightarrow>
     to_f s1 = to_f s \<and> 2 * memory_size (to_f s) \<le> memory_size (from_f s1) \<and>
     memory_size (from_f s1) \<le> kMaxSemispaceSize \<and>
     int r \<le> int (memory_size (from_f s1)) - int (memory_size (to_f s))"
  by (auto simp: Grow_from_space_def Let_def Semispace_Allocate_def Semispace_Free_def
           split: if_splits sum.splits dest!: Grow_new_size_ge)

text \<open>
  \<^verbatim>\<open>Heap::Scavenge\<close>. Its last statement calls \<^verbatim>\<open>Grow(to_.size(), ...)\<close>, which
  ends by calling \<^verbatim>\<open>Scavenge\<close> again: the body of \<^verbatim>\<open>Grow\<close> stands here in
  place of the call, and \<open>Grow\<close> is defined after it.
\<close>

function Scavenge :: "Heap \<Rightarrow> error + Heap" where
  "Scavenge s =
     (case ScavengeCore s of
        Inl e \<Rightarrow> Inl e
      | Inr s1 \<Rightarrow>
          if 7 * memory_size (to_f s1) div 8 < used s1 then
            (case Grow_from_space (memory_size (to_f s1)) s1 of
               Inl e \<Rightarrow> Inl e
             | Inr s2 \<Rightarrow> Scavenge s2)
          else Inr s1)"
  by pat_completeness auto
termination
proof (relation "measure (\<lambda>s. kMaxSemispaceSize + 1 - max (memory_size (to_f s)) (memory_size (from_f s)))")
  show "wf (measure (\<lambda>s. kMaxSemispaceSize + 1 - max (memory_size (to_f s)) (memory_size (from_f s))))"
    by simp
next
  fix s s1 s2 :: Heap
  assume a: "ScavengeCore s = Inr s1" and b: "7 * memory_size (to_f s1) div 8 < used s1"
    and c: "Grow_from_space (memory_size (to_f s1)) s1 = Inr s2"
  define m where "m = max (memory_size (to_f s)) (memory_size (from_f s))"
  define n where "n = memory_size (from_f s2)"
  from ScavengeCore_spaces[OF a] have m: "memory_size (to_f s1) = m" and u: "used s1 \<le> m"
    by (simp_all add: m_def)
  from Grow_from_space_Inr[OF c] m have n: "2 * m \<le> n" "n \<le> kMaxSemispaceSize"
    and t: "memory_size (to_f s2) = m"
    by (simp_all add: n_def)
  from b m u have "0 < m" by (cases m) auto
  with n have "kMaxSemispaceSize + 1 - max m n < kMaxSemispaceSize + 1 - m" by arith
  then show "(s2, s) \<in> measure (\<lambda>s. kMaxSemispaceSize + 1 - max (memory_size (to_f s)) (memory_size (from_f s)))"
    by (simp add: m_def n_def t[unfolded m_def])
qed

declare Scavenge.simps [simp del]

definition Grow :: "nat \<Rightarrow> Heap \<Rightarrow> error + Heap" where
  "Grow size_requested s =
     (case Grow_from_space size_requested s of
        Inl e \<Rightarrow> Inl e
      | Inr s1 \<Rightarrow> Scavenge s1)"

text \<open>
  \<^verbatim>\<open>Heap::Allocate\<close>. In the DEBUG build the block it returns is filled with
  \<^verbatim>\<open>kUninitializedByte\<close>: it holds no object.
\<close>

definition Allocate :: "nat \<Rightarrow> Heap \<Rightarrow> error + nat \<times> Heap" where
  "Allocate n s =
     (if n mod kObjectAlignment \<noteq> 0 then Inl AssertFailed
      else
        (case TryAllocate n s of
           Inl e \<Rightarrow> Inl e
         | Inr (raw, s1) \<Rightarrow>
             if raw \<noteq> 0 then Inr (raw, s1\<lparr>mem := unmap raw (raw + n) (mem s1)\<rparr>)
             else
               (case Scavenge s1 of
                  Inl e \<Rightarrow> Inl e
                | Inr s2 \<Rightarrow>
                    (case TryAllocate n s2 of
                       Inl e \<Rightarrow> Inl e
                     | Inr (raw2, s3) \<Rightarrow>
                         if raw2 \<noteq> 0 then Inr (raw2, s3\<lparr>mem := unmap raw2 (raw2 + n) (mem s3)\<rparr>)
                         else
                           (case Grow n s3 of
                              Inl e \<Rightarrow> Inl e
                            | Inr s4 \<Rightarrow>
                                (case TryAllocate n s4 of
                                   Inl e \<Rightarrow> Inl e
                                 | Inr (raw3, s5) \<Rightarrow>
                                     if raw3 = 0 then Inl (Fatal ''Failed to allocate'')
                                     else Inr (raw3, s5\<lparr>mem := unmap raw3 (raw3 + n) (mem s5)\<rparr>)))))))"

subsection \<open>Walking to-space by address order\<close>

function CountInstancesFrom :: "nat \<Rightarrow> nat \<Rightarrow> nat \<Rightarrow> Heap \<Rightarrow> error + nat" where
  "CountInstancesFrom c scan instances s =
     (if scan < top_f s then
        (case object_at s scan of
           Inl e \<Rightarrow> Inl e
         | Inr obj \<Rightarrow>
             if heap_size obj = 0 then Inl Diverges
             else CountInstancesFrom c (scan + heap_size obj)
                    (if cid obj = c then instances + 1 else instances) s)
      else Inr instances)"
  by pat_completeness auto
termination
  by (relation "measure (\<lambda>(c, scan, instances, s). top_f s - scan)") auto

declare CountInstancesFrom.simps [simp del]

definition CountInstances :: "nat \<Rightarrow> Heap \<Rightarrow> error + nat" where
  "CountInstances c s = CountInstancesFrom c (object_start (to_f s)) 0 s"

lemma store_top: "store p v s = Inr s1 \<Longrightarrow> top_f s1 = top_f s"
  by (cases p) (auto split: if_splits sum.splits)

lemma set_element_top: "set_element arr i v s = Inr s1 \<Longrightarrow> top_f s1 = top_f s"
  by (cases arr) (auto simp: set_element_def split: sum.splits if_splits)

function CollectInstancesFrom :: "nat \<Rightarrow> oop \<Rightarrow> nat \<Rightarrow> nat \<Rightarrow> Heap \<Rightarrow> error + nat \<times> Heap" where
  "CollectInstancesFrom c array scan instances s =
     (if scan < top_f s then
        (case object_at s scan of
           Inl e \<Rightarrow> Inl e
         | Inr obj \<Rightarrow>
             (case (if cid obj = c
                    then (case set_element array instances (HeapObject scan) s of
                            Inl e \<Rightarrow> Inl e
                          | Inr s1 \<Rightarrow> Inr (instances + 1, s1))
                    else Inr (instances, s)) of
                Inl e \<Rightarrow> Inl e
              | Inr (instances1, s1) \<Rightarrow>
                  (case object_at s1 scan of
                     Inl e \<Rightarrow> Inl e
                   | Inr obj1 \<Rightarrow>
                       if heap_size obj1 = 0 then Inl Diverges
                       else CollectInstancesFrom c array (scan + heap_size obj1) instances1 s1)))
      else Inr (instances, s))"
  by pat_completeness auto
termination
proof (relation "measure (\<lambda>(c, array, scan, instances, s). top_f s - scan)")
  show "wf (measure (\<lambda>(c, array, scan, instances, s). top_f s - scan))" by simp
next
  fix c :: nat and array :: oop and scan instances instances1 :: nat and s s1 :: Heap
    and obj obj1 :: object and x :: "nat \<times> Heap"
  assume a: "scan < top_f s"
    and b: "(if cid obj = c
             then case set_element array instances (HeapObject scan) s of
                    Inl e \<Rightarrow> Inl e | Inr s1 \<Rightarrow> Inr (instances + 1, s1)
             else Inr (instances, s)) = Inr x"
    and c: "(instances1, s1) = x" and d: "heap_size obj1 \<noteq> 0"
  from b c have "top_f s1 = top_f s"
    by (auto split: if_splits sum.splits dest: set_element_top)
  with a d
  show "((c, array, scan + heap_size obj1, instances1, s1), (c, array, scan, instances, s))
          \<in> measure (\<lambda>(c, array, scan, instances, s). top_f s - scan)"
    by simp
qed

declare CollectInstancesFrom.simps [simp del]

definition CollectInstances :: "nat \<Rightarrow> oop \<Rightarrow> Heap \<Rightarrow> error + nat \<times> Heap" where
  "CollectInstances c array s = CollectInstancesFrom c array (object_start (to_f s)) 0 s"

subsection \<open>Forwarding through corpses\<close>

definition ForwardingCorpse_target :: "oop \<Rightarrow> Heap \<Rightarrow> error + oop" where
  "ForwardingCorpse_target p s =
     (case deref s p of Inl e \<Rightarrow> Inl e | Inr obj \<Rightarrow> Inr (target obj))"

definition ClassAt :: "nat \<Rightarrow> Heap \<Rightarrow> error + oop" where
  "ClassAt c s =
     (if \<not> kIllegalCid < c then Inl AssertFailed
      else if \<not> c < class_table_top_f s then Inl AssertFailed
      else if \<not> c < length (class_table_f s) then Inl Fault
      else Inr (class_table_f s ! c))"

definition set_cid :: "nat \<Rightarrow> int \<Rightarrow> Heap \<Rightarrow> error + Heap" where
  "set_cid a v s =
     (case object_at s a of
        Inl e \<Rightarrow> Inl e
      | Inr obj \<Rightarrow>
          if v < 0 then Inl AssertFailed
          else Inr (s\<lparr>mem := (mem s)(a \<mapsto> Object (obj\<lparr>cid := nat v\<rparr>))\<rparr>))"

text \<open>
  \<^verbatim>\<open>ForwardClass(heap, object)\<close>, for the object at an address.
  \<^verbatim>\<open>AssertCouldBeBehavior\<close> is declared in \<^verbatim>\<open>vm/object.h\<close> and is left out.
\<close>

definition ForwardClass :: "nat \<Rightarrow> Heap \<Rightarrow> error + Heap" where
  "ForwardClass a s =
     (case object_at s a of
        Inl e \<Rightarrow> Inl e
      | Inr obj \<Rightarrow>
     (case ClassAt (cid obj) s of
        Inl e \<Rightarrow> Inl e
      | Inr old_class \<Rightarrow>
     (case IsForwardingCorpse old_class s of
        Inl e \<Rightarrow> Inl e
      | Inr False \<Rightarrow> Inr s
      | Inr True \<Rightarrow>
     (case ForwardingCorpse_target old_class s of
        Inl e \<Rightarrow> Inl e
      | Inr new_class \<Rightarrow>
     (case IsForwardingCorpse new_class s of
        Inl e \<Rightarrow> Inl e
      | Inr True \<Rightarrow> Inl AssertFailed
      | Inr False \<Rightarrow>
     (case Behavior_id new_class s of
        Inl e \<Rightarrow> Inl e
      | Inr new_id \<Rightarrow>
     (case nil_obj s of
        Inl e \<Rightarrow> Inl e
      | Inr nil \<Rightarrow>
     (case (if new_id = nil
            then (case Behavior_id old_class s of
                    Inl e \<Rightarrow> Inl e
                  | Inr old_id \<Rightarrow>
                      if \<not> IsImmediateObject old_id then Inl AssertFailed
                      else Behavior_set_id new_class old_id s)
            else Inr s) of
        Inl e \<Rightarrow> Inl e
      | Inr s1 \<Rightarrow>
     (case Behavior_id new_class s1 of
        Inl e \<Rightarrow> Inl e
      | Inr new_id1 \<Rightarrow>
     (case SmallInteger_value new_id1 of
        Inl e \<Rightarrow> Inl e
      | Inr v \<Rightarrow> set_cid a v s1))))))))))"

definition ForwardPointer :: "ptr \<Rightarrow> Heap \<Rightarrow> error + Heap" where
  "ForwardPointer p s =
     (case load p s of
        Inl e \<Rightarrow> Inl e
      | Inr old_target \<Rightarrow>
     (case IsForwardingCorpse old_target s of
        Inl e \<Rightarrow> Inl e
      | Inr False \<Rightarrow> Inr s
      | Inr True \<Rightarrow>
     (case ForwardingCorpse_target old_target s of
        Inl e \<Rightarrow> Inl e
      | Inr new_target \<Rightarrow>
     (case IsForwardingCorpse new_target s of
        Inl e \<Rightarrow> Inl e
      | Inr True \<Rightarrow> Inl AssertFailed
      | Inr False \<Rightarrow> store p new_target s))))"

definition ForwardRoots :: "Heap \<Rightarrow> error + Heap" where
  "ForwardRoots s =
     (case ForwardPointer object_store_ptr s of
        Inl e \<Rightarrow> Inl e
      | Inr s1 \<Rightarrow>
          (case ForwardPointer current_activation_ptr s1 of
             Inl e \<Rightarrow> Inl e
           | Inr s2 \<Rightarrow>
               for_each (\<lambda>i. ForwardPointer (handle_ptr i)) [0..<handles_top_f s2] s2))"

text \<open>The body of the loop of \<^verbatim>\<open>Heap::ForwardToSpace\<close>, up to the advance of \<open>scan\<close>.\<close>

definition ForwardObject :: "nat \<Rightarrow> Heap \<Rightarrow> error + Heap" where
  "ForwardObject scan s =
     (case IsForwardingCorpse (HeapObject scan) s of
        Inl e \<Rightarrow> Inl e
      | Inr True \<Rightarrow> Inr s
      | Inr False \<Rightarrow>
          (case ForwardClass scan s of
             Inl e \<Rightarrow> Inl e
           | Inr s1 \<Rightarrow>
               (case object_at s1 scan of
                  Inl e \<Rightarrow> Inl e
                | Inr obj \<Rightarrow>
                    for_each (\<lambda>i. ForwardPointer (slot_ptr scan i)) [0..<length (slots obj)] s1)))"

lemma set_cid_top: "set_cid a v s = Inr s1 \<Longrightarrow> top_f s1 = top_f s"
  by (auto simp: set_cid_def split: sum.splits if_splits)

lemma Behavior_set_id_top: "Behavior_set_id c v s = Inr s1 \<Longrightarrow> top_f s1 = top_f s"
  by (auto simp: Behavior_set_id_def dest: set_element_top)

lemma ForwardClass_top: "ForwardClass a s = Inr s1 \<Longrightarrow> top_f s1 = top_f s"
  unfolding ForwardClass_def
  by (auto split: sum.splits bool.splits if_splits dest!: set_cid_top Behavior_set_id_top)

lemma ForwardPointer_top: "ForwardPointer p s = Inr s1 \<Longrightarrow> top_f s1 = top_f s"
  unfolding ForwardPointer_def
  by (auto split: sum.splits bool.splits dest: store_top)

lemma for_each_top:
  assumes "\<And>x s s1. f x s = Inr s1 \<Longrightarrow> top_f s1 = top_f s"
  shows "for_each f xs s = Inr s1 \<Longrightarrow> top_f s1 = top_f s"
proof (induction xs arbitrary: s)
  case Nil
  then show ?case by simp
next
  case (Cons x xs)
  then obtain s2 where a: "f x s = Inr s2" and b: "for_each f xs s2 = Inr s1"
    by (auto split: sum.splits)
  from assms[OF a] Cons.IH[OF b] show ?case by simp
qed

lemma ForwardObject_top:
  assumes "ForwardObject scan s = Inr s1"
  shows "top_f s1 = top_f s"
proof -
  have p: "\<And>xs t t1. for_each (\<lambda>i. ForwardPointer (slot_ptr scan i)) xs t = Inr t1 \<Longrightarrow> top_f t1 = top_f t"
    by (rule for_each_top[where f = "\<lambda>i. ForwardPointer (slot_ptr scan i)"]) (rule ForwardPointer_top)
  from assms show ?thesis
    unfolding ForwardObject_def
    by (auto split: sum.splits bool.splits dest!: ForwardClass_top p)
qed

function ForwardToSpaceFrom :: "nat \<Rightarrow> Heap \<Rightarrow> error + Heap" where
  "ForwardToSpaceFrom scan s =
     (if scan < top_f s then
        (case ForwardObject scan s of
           Inl e \<Rightarrow> Inl e
         | Inr s1 \<Rightarrow>
             (case object_at s1 scan of
                Inl e \<Rightarrow> Inl e
              | Inr obj \<Rightarrow>
                  if heap_size obj = 0 then Inl Diverges
                  else ForwardToSpaceFrom (scan + heap_size obj) s1))
      else Inr s)"
  by pat_completeness auto
termination
proof (relation "measure (\<lambda>(scan, s). top_f s - scan)")
  show "wf (measure (\<lambda>(scan, s). top_f s - scan))" by simp
next
  fix scan :: nat and s s1 :: Heap and obj :: object
  assume "scan < top_f s" and "ForwardObject scan s = Inr s1" and "heap_size obj \<noteq> 0"
  then show "((scan + heap_size obj, s1), (scan, s)) \<in> measure (\<lambda>(scan, s). top_f s - scan)"
    using ForwardObject_top[of scan s s1] by auto
qed

declare ForwardToSpaceFrom.simps [simp del]

definition ForwardToSpace :: "Heap \<Rightarrow> error + Heap" where
  "ForwardToSpace s = ForwardToSpaceFrom (object_start (to_f s)) s"

definition ForwardClassTableEntry :: "oop \<Rightarrow> nat \<Rightarrow> Heap \<Rightarrow> error + Heap" where
  "ForwardClassTableEntry nil i s =
     (if \<not> i < length (class_table_f s) then Inl Fault
      else
        let old_class = class_table_f s ! i in
     (case IsForwardingCorpse old_class s of
        Inl e \<Rightarrow> Inl e
      | Inr False \<Rightarrow> Inr s
      | Inr True \<Rightarrow>
     (case ForwardingCorpse_target old_class s of
        Inl e \<Rightarrow> Inl e
      | Inr new_class \<Rightarrow>
     (case IsForwardingCorpse new_class s of
        Inl e \<Rightarrow> Inl e
      | Inr True \<Rightarrow> Inl AssertFailed
      | Inr False \<Rightarrow>
     (case Behavior_id old_class s of
        Inl e \<Rightarrow> Inl e
      | Inr old_id \<Rightarrow>
          if \<not> IsImmediateObject old_id then Inl AssertFailed
          else
     (case Behavior_id new_class s of
        Inl e \<Rightarrow> Inl e
      | Inr new_id \<Rightarrow>
          if \<not> (IsImmediateObject new_id \<or> new_id = nil) then Inl AssertFailed
          else if old_id = new_id
          then Inr (s\<lparr>class_table_f := (class_table_f s)[i := new_class]\<rparr>)
          else Inr (s\<lparr>class_table_f := (class_table_f s)[i := SmallInteger (class_table_free_f s)],
                       class_table_free_f := int i\<rparr>)))))))"

definition ForwardClassTable :: "Heap \<Rightarrow> error + Heap" where
  "ForwardClassTable s =
     (case nil_obj s of
        Inl e \<Rightarrow> Inl e
      | Inr nil \<Rightarrow> for_each (ForwardClassTableEntry nil) [kFirstLegalCid..<class_table_top_f s] s)"

subsection \<open>become\<close>

text \<open>The first loop of \<^verbatim>\<open>Heap::BecomeForward\<close>: is an element of either array an immediate?\<close>

fun HasImmediate :: "oop \<Rightarrow> oop \<Rightarrow> nat list \<Rightarrow> Heap \<Rightarrow> error + bool" where
  "HasImmediate old neu [] s = Inr False"
| "HasImmediate old neu (i # is) s =
     (case element old i s of
        Inl e \<Rightarrow> Inl e
      | Inr forwarder \<Rightarrow>
          (case element neu i s of
             Inl e \<Rightarrow> Inl e
           | Inr forwardee \<Rightarrow>
               if IsImmediateObject forwarder \<or> IsImmediateObject forwardee then Inr True
               else HasImmediate old neu is s))"

definition set_identity_hash :: "oop \<Rightarrow> nat \<Rightarrow> Heap \<Rightarrow> error + Heap" where
  "set_identity_hash p h s =
     (case deref s p of
        Inl e \<Rightarrow> Inl e
      | Inr obj \<Rightarrow> Inr (s\<lparr>mem := (mem s)(Addr p \<mapsto> Object (obj\<lparr>identity_hash := h\<rparr>))\<rparr>))"

text \<open>
  Modelled from the spec: \<^verbatim>\<open>Object::InitializeObject(addr, cid, size)\<close> initialises
  the header with the class id and the heap size; the fresh header has no identity
  hash. The storage after the header is left as it is.
\<close>

definition InitializeObject :: "nat \<Rightarrow> nat \<Rightarrow> nat \<Rightarrow> Heap \<Rightarrow> error + Heap" where
  "InitializeObject a c n s =
     (case object_at s a of
        Inl e \<Rightarrow> Inl e
      | Inr obj \<Rightarrow>
          Inr (s\<lparr>mem := (mem s)(a \<mapsto> Object (obj\<lparr>cid := c, heap_size := n, identity_hash := 0\<rparr>))\<rparr>))"

definition set_target :: "nat \<Rightarrow> oop \<Rightarrow> Heap \<Rightarrow> error + Heap" where
  "set_target a t s =
     (case object_at s a of
        Inl e \<Rightarrow> Inl e
      | Inr obj \<Rightarrow> Inr (s\<lparr>mem := (mem s)(a \<mapsto> Object (obj\<lparr>target := t\<rparr>))\<rparr>))"

text \<open>The body of the second loop of \<^verbatim>\<open>Heap::BecomeForward\<close>.\<close>

definition InstallCorpse :: "oop \<Rightarrow> oop \<Rightarrow> nat \<Rightarrow> Heap \<Rightarrow> error + Heap" where
  "InstallCorpse old neu i s =
     (case element old i s of
        Inl e \<Rightarrow> Inl e
      | Inr forwarder \<Rightarrow>
     (case element neu i s of
        Inl e \<Rightarrow> Inl e
      | Inr forwardee \<Rightarrow>
     (case IsForwardingCorpse forwarder s of
        Inl e \<Rightarrow> Inl e
      | Inr True \<Rightarrow> Inl AssertFailed
      | Inr False \<Rightarrow>
     (case IsForwardingCorpse forwardee s of
        Inl e \<Rightarrow> Inl e
      | Inr True \<Rightarrow> Inl AssertFailed
      | Inr False \<Rightarrow>
     (case deref s forwarder of
        Inl e \<Rightarrow> Inl e
      | Inr fobj \<Rightarrow>
     (case set_identity_hash forwardee (identity_hash fobj) s of
        Inl e \<Rightarrow> Inl e
      | Inr s1 \<Rightarrow>
     (case deref s1 forwarder of
        Inl e \<Rightarrow> Inl e
      | Inr fobj1 \<Rightarrow>
     (case InitializeObject (Addr forwarder) kForwardingCorpseCid (heap_size fobj1) s1 of
        Inl e \<Rightarrow> Inl e
      | Inr s2 \<Rightarrow> set_target (Addr forwarder) forwardee s2))))))))"

definition BecomeForward :: "oop \<Rightarrow> oop \<Rightarrow> Heap \<Rightarrow> error + bool \<times> Heap" where
  "BecomeForward old neu s =
     (case deref s old of
        Inl e \<Rightarrow> Inl e
      | Inr old_array \<Rightarrow>
     (case deref s neu of
        Inl e \<Rightarrow> Inl e
      | Inr neu_array \<Rightarrow>
          if length (slots old_array) \<noteq> length (slots neu_array) then Inr (False, s)
          else
            let len = length (slots old_array) in
     (case HasImmediate old neu [0..<len] s of
        Inl e \<Rightarrow> Inl e
      | Inr True \<Rightarrow> Inr (False, s)
      | Inr False \<Rightarrow>
     (case for_each (InstallCorpse old neu) [0..<len] s of
        Inl e \<Rightarrow> Inl e
      | Inr s1 \<Rightarrow>
     (case ForwardRoots s1 of
        Inl e \<Rightarrow> Inl e
      | Inr s2 \<Rightarrow>
     (case ForwardToSpace s2 of
        Inl e \<Rightarrow> Inl e
      | Inr s3 \<Rightarrow>
     (case ForwardClassTable s3 of
        Inl e \<Rightarrow> Inl e
      | Inr s4 \<Rightarrow> Inr (True, ClearCaches s4))))))))"

section \<open>An example heap\<close>

text \<open>
  A small heap on which the theorems below are instantiated: an object store, \<open>nil\<close>,
  three regular objects, a weak array, two ephemerons and six classes, in a to-space
  of 1024 bytes at address 4096. The object at 4328 is referenced only from the weak
  array and as the key of the ephemeron at 4360, which nothing references.
\<close>

definition mk_object :: "nat \<Rightarrow> nat \<Rightarrow> nat \<Rightarrow> oop list \<Rightarrow> object" where
  "mk_object c n h xs =
     \<lparr>cid = c, heap_size = n, identity_hash = h, slots = xs, payload = [], target = NULL\<rparr>"

definition mk_class :: "oop \<Rightarrow> int \<Rightarrow> object" where
  "mk_class nil c =
     mk_object kFirstRegularObjectCid 64 0 [nil, nil, nil, nil, SmallInteger c, SmallInteger 0]"

definition ex_nil :: oop where "ex_nil = HeapObject 4168"

definition ex_objects :: "(nat \<times> object) list" where
  "ex_objects =
    [(4104, mk_object kArrayCid 64 0 [ex_nil, HeapObject 4184, HeapObject 4232, HeapObject 4280]),
     (4168, mk_object 15 16 101 []),
     (4184, mk_object 16 32 102 [HeapObject 4216, SmallInteger 5]),
     (4216, mk_object 16 16 103 []),
     (4232, mk_object kWeakArrayCid 48 104 [HeapObject 4184, HeapObject 4328, SmallInteger 7]),
     (4280, mk_object kEphemeronCid 48 105 [HeapObject 4184, HeapObject 4344, ex_nil]),
     (4328, mk_object 16 16 106 []),
     (4344, mk_object 16 16 107 []),
     (4360, mk_object kEphemeronCid 48 108 [HeapObject 4328, HeapObject 4216, ex_nil]),
     (4408, mk_class ex_nil 14),
     (4472, mk_class ex_nil 9),
     (4536, mk_class ex_nil 10),
     (4600, mk_class ex_nil 11),
     (4664, mk_class ex_nil 15),
     (4728, mk_class ex_nil 16)]"

definition ex_class_table :: "oop list" where
  "ex_class_table =
     [SmallInteger 0, SmallInteger 0, SmallInteger 0, SmallInteger 0, SmallInteger 0,
      SmallInteger 0, SmallInteger 0, SmallInteger 0, SmallInteger 0,
      HeapObject 4472, HeapObject 4536, HeapObject 4600, SmallInteger 0, SmallInteger 0,
      HeapObject 4408, HeapObject 4664, HeapObject 4728, SmallInteger 0, SmallInteger 0,
      SmallInteger 0]"

definition ex_heap :: Heap where
  "ex_heap =
     \<lparr>top_f = 4792, end_f = 5120,
      to_f = \<lparr>memory_base = 4096, memory_size = 1024\<rparr>,
      from_f = \<lparr>memory_base = 8192, memory_size = 1024\<rparr>,
      ephemeron_list_f = [], weak_list_f = [],
      class_table_f = ex_class_table, class_table_capacity_f = 20, class_table_top_f = 17,
      class_table_free_f = 0,
      object_store_f = HeapObject 4104, current_activation_f = SmallInteger 0,
      recycle_list_f = NULL, lookup_cache_f = [],
      handles_f = [HeapObject 4280], handles_top_f = 1,
      mem = cells (map (\<lambda>(a, obj). (a, Object obj)) ex_objects),
      vm_brk = 16384\<rparr>"

lemmas consts_defs = kWordSize_def kObjectAlignment_def kNewObjectAlignmentOffset_def
  kArrayCid_def kWeakArrayCid_def kEphemeronCid_def kFirstRegularObjectCid_def kFirstLegalCid_def
  kForwardingCorpseCid_def kIllegalCid_def kNilIndex_def kBehaviorIdIndex_def NULL_def

lemmas ex_defs = ex_heap_def ex_objects_def ex_class_table_def ex_nil_def mk_object_def mk_class_def

section \<open>Failure of become\<close>

lemma element_deref:
  "deref s arr = Inr obj \<Longrightarrow> i < length (slots obj) \<Longrightarrow> element arr i s = Inr (slots obj ! i)"
  by (cases arr) (auto simp: deref_def element_def)

lemma HasImmediate_iff:
  assumes "deref s old = Inr old_array" and "deref s neu = Inr neu_array"
    and "length (slots old_array) = length (slots neu_array)"
  shows "\<forall>i \<in> set xs. i < length (slots old_array) \<Longrightarrow>
         HasImmediate old neu xs s =
           Inr (\<exists>i \<in> set xs. IsImmediateObject (slots old_array ! i) \<or>
                               IsImmediateObject (slots neu_array ! i))"
proof (induction xs)
  case Nil
  then show ?case by simp
next
  case (Cons i xs)
  then show ?case
    using element_deref[OF assms(1), of i] element_deref[OF assms(2), of i] assms(3)
    by auto
qed

text \<open>
  Claim C4. \<^verbatim>\<open>BecomeForward(old, neu)\<close> on two arrays of different lengths, or with
  an immediate among the elements of either, returns false and leaves the whole heap
  as it was: no identity hash copied, no corpse installed, no pointer, class-table
  entry or cache changed.
\<close>

theorem BecomeForward_failure_no_mutation:
  assumes "deref s old = Inr old_array" and "deref s neu = Inr neu_array"
    and "length (slots old_array) \<noteq> length (slots neu_array) \<or>
         (\<exists>i < length (slots old_array).
            IsImmediateObject (slots old_array ! i) \<or> IsImmediateObject (slots neu_array ! i))"
  shows "BecomeForward old neu s = Inr (False, s)"
proof (cases "length (slots old_array) = length (slots neu_array)")
  case False
  with assms(1,2) show ?thesis by (simp add: BecomeForward_def)
next
  case True
  with assms(3) have "\<exists>i \<in> set [0..<length (slots old_array)].
      IsImmediateObject (slots old_array ! i) \<or> IsImmediateObject (slots neu_array ! i)"
    by auto
  moreover have "\<forall>i \<in> set [0..<length (slots old_array)]. i < length (slots old_array)"
    by simp
  ultimately have "HasImmediate old neu [0..<length (slots old_array)] s = Inr True"
    using HasImmediate_iff[OF assms(1,2) True, of "[0..<length (slots old_array)]"] by simp
  with assms(1,2) True show ?thesis by (simp add: BecomeForward_def Let_def)
qed

theorem BecomeForward_failure_no_mutation_witness:
  "deref ex_heap (HeapObject 4232) =
     Inr (mk_object kWeakArrayCid 48 104 [HeapObject 4184, HeapObject 4328, SmallInteger 7]) \<and>
   deref ex_heap (HeapObject 4280) =
     Inr (mk_object kEphemeronCid 48 105 [HeapObject 4184, HeapObject 4344, ex_nil]) \<and>
   BecomeForward (HeapObject 4232) (HeapObject 4280) ex_heap = Inr (False, ex_heap)"
proof -
  have a: "deref ex_heap (HeapObject 4232) =
     Inr (mk_object kWeakArrayCid 48 104 [HeapObject 4184, HeapObject 4328, SmallInteger 7])"
    by (simp add: deref_def object_at_def ex_defs cells_def)
  have b: "deref ex_heap (HeapObject 4280) =
     Inr (mk_object kEphemeronCid 48 105 [HeapObject 4184, HeapObject 4344, ex_nil])"
    by (simp add: deref_def object_at_def ex_defs cells_def)
  have c: "length (slots (mk_object kWeakArrayCid 48 104 [HeapObject 4184, HeapObject 4328, SmallInteger 7]))
            \<noteq> length (slots (mk_object kEphemeronCid 48 105 [HeapObject 4184, HeapObject 4344, ex_nil])) \<or>
      (\<exists>i < length (slots (mk_object kWeakArrayCid 48 104 [HeapObject 4184, HeapObject 4328, SmallInteger 7])).
         IsImmediateObject (slots (mk_object kWeakArrayCid 48 104 [HeapObject 4184, HeapObject 4328, SmallInteger 7]) ! i) \<or>
         IsImmediateObject (slots (mk_object kEphemeronCid 48 105 [HeapObject 4184, HeapObject 4344, ex_nil]) ! i))"
    by (rule disjI2, rule exI[of _ 2]) (simp add: mk_object_def)
  from BecomeForward_failure_no_mutation[OF a b c] a b show ?thesis by simp
qed

section \<open>Evaluating concrete heaps\<close>

text \<open>
  Rewrite rules that keep the memory of a concrete heap a list of cells, so that the
  simplifier can run the operations on the example heaps.
\<close>

lemma cells_Nil: "cells [] a = None"
  by (simp add: cells_def)

lemma cells_Cons: "cells ((k, v) # xs) a = (if a = k then Some v else cells xs a)"
  by (simp add: cells_def)

lemma cells_upd: "(cells xs)(a \<mapsto> c) = cells ((a, c) # filter (\<lambda>(k, v). k \<noteq> a) xs)"
proof
  fix x
  have "map_of (filter (\<lambda>(k, v). k \<noteq> a) xs) x = (if x = a then None else map_of xs x)"
    by (induction xs) auto
  then show "((cells xs)(a \<mapsto> c)) x = cells ((a, c) # filter (\<lambda>(k, v). k \<noteq> a) xs) x"
    by (simp add: cells_def)
qed

lemma cells_unmap: "unmap lo hi (cells xs) = cells (filter (\<lambda>(k, v). \<not> (lo \<le> k \<and> k < hi)) xs)"
proof
  fix x
  show "unmap lo hi (cells xs) x = cells (filter (\<lambda>(k, v). \<not> (lo \<le> k \<and> k < hi)) xs) x"
    unfolding cells_def unmap_def by (induction xs) auto
qed

definition copy_cells :: "nat \<Rightarrow> nat \<Rightarrow> nat \<Rightarrow> (nat \<times> cell) list \<Rightarrow> (nat \<times> cell) list" where
  "copy_cells dst src n xs =
     map (\<lambda>(k, v). (dst + (k - src), v)) (filter (\<lambda>(k, v). src \<le> k \<and> k < src + n) xs) @
     filter (\<lambda>(k, v). \<not> (dst \<le> k \<and> k < dst + n)) xs"

lemma cells_copy_bytes: "copy_bytes dst src n (cells xs) = cells (copy_cells dst src n xs)"
proof
  fix x
  let ?A = "map (\<lambda>(k, v). (dst + (k - src), v)) (filter (\<lambda>(k, v). src \<le> k \<and> k < src + n) xs)"
  let ?B = "filter (\<lambda>(k, v). \<not> (dst \<le> k \<and> k < dst + n)) xs"
  have B: "map_of ?B x = (if dst \<le> x \<and> x < dst + n then None else map_of xs x)"
    by (induction xs) auto
  have A: "map_of ?A x = (if dst \<le> x \<and> x < dst + n then map_of xs (src + (x - dst)) else None)"
    by (induction xs) auto
  have "map_of (?A @ ?B) x = (if dst \<le> x \<and> x < dst + n then map_of xs (src + (x - dst)) else map_of xs x)"
    unfolding map_of_append map_add_def A B by (auto split: option.splits)
  then show "copy_bytes dst src n (cells xs) x = cells (copy_cells dst src n xs) x"
    unfolding cells_def copy_bytes_def copy_cells_def by simp
qed

lemmas cells_simps = cells_Nil cells_Cons cells_upd cells_unmap cells_copy_bytes copy_cells_def



section \<open>Instances of a class\<close>

subsection \<open>The objects of to-space\<close>

text \<open>
  The addresses of the objects between \<open>scan\<close> and \<open>top_f\<close>, found as every walk of
  the source finds them: each object starts where the one before it ends.
\<close>

function objects_from :: "nat \<Rightarrow> Heap \<Rightarrow> error + nat list" where
  "objects_from scan s =
     (if scan < top_f s then
        (case object_at s scan of
           Inl e \<Rightarrow> Inl e
         | Inr obj \<Rightarrow>
             if heap_size obj = 0 then Inl Diverges
             else (case objects_from (scan + heap_size obj) s of
                     Inl e \<Rightarrow> Inl e
                   | Inr as \<Rightarrow> Inr (scan # as)))
      else Inr [])"
  by pat_completeness auto
termination
  by (relation "measure (\<lambda>(scan, s). top_f s - scan)") auto

declare objects_from.simps [simp del]

definition cid_at :: "Heap \<Rightarrow> nat \<Rightarrow> nat option" where
  "cid_at s a = (case mem s a of Some (Object obj) \<Rightarrow> Some (cid obj) | _ \<Rightarrow> None)"

definition instances :: "nat \<Rightarrow> Heap \<Rightarrow> nat list \<Rightarrow> nat list" where
  "instances c s as = filter (\<lambda>a. cid_at s a = Some c) as"

lemma objects_from_lower: "objects_from scan s = Inr as \<Longrightarrow> \<forall>a \<in> set as. scan \<le> a"
proof (induction scan s arbitrary: as rule: objects_from.induct)
  case (1 scan s)
  show ?case
  proof (cases "scan < top_f s")
    case False
    with "1.prems" show ?thesis by (simp add: objects_from.simps[of scan s])
  next
    case True
    with "1.prems" obtain obj :: object and bs
      where a: "object_at s scan = Inr obj" and b: "heap_size obj \<noteq> 0"
        and c: "objects_from (scan + heap_size obj) s = Inr bs" and d: "as = scan # bs"
      by (auto simp: objects_from.simps[of scan s] split: sum.splits if_splits)
    from "1.IH"[OF True a b c] d show ?thesis by auto
  qed
qed

lemma objects_from_sorted: "objects_from scan s = Inr as \<Longrightarrow> sorted_wrt (<) as"
proof (induction scan s arbitrary: as rule: objects_from.induct)
  case (1 scan s)
  show ?case
  proof (cases "scan < top_f s")
    case False
    with "1.prems" show ?thesis by (simp add: objects_from.simps[of scan s])
  next
    case True
    with "1.prems" obtain obj :: object and bs
      where a: "object_at s scan = Inr obj" and b: "heap_size obj \<noteq> 0"
        and c: "objects_from (scan + heap_size obj) s = Inr bs" and d: "as = scan # bs"
      by (auto simp: objects_from.simps[of scan s] split: sum.splits if_splits)
    from "1.IH"[OF True a b c] objects_from_lower[OF c] b d show ?thesis by fastforce
  qed
qed

lemma CountInstancesFrom_objects:
  "CountInstancesFrom c scan n s =
     (case objects_from scan s of Inl e \<Rightarrow> Inl e | Inr as \<Rightarrow> Inr (n + length (instances c s as)))"
proof (induction c scan n s rule: CountInstancesFrom.induct)
  case (1 c scan n s)
  show ?case
  proof (cases "scan < top_f s")
    case False
    then show ?thesis
      by (simp add: CountInstancesFrom.simps[of c scan n s] objects_from.simps[of scan s] instances_def)
  next
    case True
    show ?thesis
    proof (cases "object_at s scan")
      case (Inl e)
      with True show ?thesis
        by (simp add: CountInstancesFrom.simps[of c scan n s] objects_from.simps[of scan s])
    next
      case (Inr obj)
      show ?thesis
      proof (cases "heap_size obj = 0")
        case True
        with Inr \<open>scan < top_f s\<close> show ?thesis
          by (simp add: CountInstancesFrom.simps[of c scan n s] objects_from.simps[of scan s])
      next
        case False
        have ca: "cid_at s scan = Some (cid obj)"
          using Inr by (auto simp: cid_at_def object_at_def split: option.splits cell.splits)
        from "1.IH"[OF True Inr False] Inr True False ca show ?thesis
          by (auto simp: CountInstancesFrom.simps[of c scan n s] objects_from.simps[of scan s]
                instances_def split: sum.splits)
      qed
    qed
  qed
qed


definition with_slots :: "Heap \<Rightarrow> nat \<Rightarrow> object \<Rightarrow> oop list \<Rightarrow> Heap" where
  "with_slots s a arr xs = s\<lparr>mem := (mem s)(a \<mapsto> Object (arr\<lparr>slots := xs\<rparr>))\<rparr>"

lemma object_at_with_slots:
  assumes "mem s a = Some (Object arr)"
  shows "object_at (with_slots s a arr xs) x =
           (if x = a then Inr (arr\<lparr>slots := xs\<rparr>) else object_at s x)"
  by (simp add: with_slots_def object_at_def)

lemma CollectInstancesFrom_objects:
  "mem s a = Some (Object arr) \<Longrightarrow> objects_from scan s = Inr as \<Longrightarrow> n \<le> length xs \<Longrightarrow>
     CollectInstancesFrom c (HeapObject a) scan n (with_slots s a arr xs) =
       (let is = instances c s as in
        if n + length is \<le> length xs
        then Inr (n + length is,
                  with_slots s a arr (take n xs @ map HeapObject is @ drop (n + length is) xs))
        else Inl OutOfBounds)"
proof (induction scan s arbitrary: as n xs rule: objects_from.induct)
  case (1 scan s)
  note arr = "1.prems"(1)
  let ?t = "with_slots s a arr xs"
  have top: "top_f ?t = top_f s" by (simp add: with_slots_def)
  show ?case
  proof (cases "scan < top_f s")
    case False
    with "1.prems" have "as = []" by (simp add: objects_from.simps[of scan s])
    with False top "1.prems"(3) show ?thesis
      by (simp add: CollectInstancesFrom.simps[of c "HeapObject a" scan n ?t] instances_def)
  next
    case True
    with "1.prems" obtain obj :: object and bs
      where a: "object_at s scan = Inr obj" and b: "heap_size obj \<noteq> 0"
        and c: "objects_from (scan + heap_size obj) s = Inr bs" and d: "as = scan # bs"
      by (auto simp: objects_from.simps[of scan s] split: sum.splits if_splits)
    have ca: "cid_at s scan = Some (cid obj)"
      using a by (auto simp: cid_at_def object_at_def split: option.splits cell.splits)
    have same: "scan = a \<Longrightarrow> obj = arr"
      using a arr by (simp add: object_at_def)
    show ?thesis
    proof (cases "cid obj = c")
      case False
      have o1: "\<exists>obj1 :: object. object_at ?t scan = Inr obj1 \<and> cid obj1 = cid obj \<and> heap_size obj1 = heap_size obj"
        using a same by (auto simp: object_at_with_slots[OF arr])
      have i: "instances c s as = instances c s bs"
        using False ca d by (simp add: instances_def)
      from o1 False True top b "1.IH"[OF True a b arr c "1.prems"(3)] i show ?thesis
        by (auto simp: CollectInstancesFrom.simps[of c "HeapObject a" scan n ?t])
    next
      case eq: True
      have i: "instances c s as = scan # instances c s bs"
        using eq ca d by (simp add: instances_def)
      show ?thesis
      proof (cases "n < length xs")
        case False
        have o1: "\<exists>obj1 :: object. object_at ?t scan = Inr obj1 \<and> cid obj1 = c"
          using a same eq by (auto simp: object_at_with_slots[OF arr])
        have "set_element (HeapObject a) n (HeapObject scan) ?t = Inl OutOfBounds"
          using False by (simp add: set_element_def object_at_with_slots[OF arr])
        with o1 True top False i show ?thesis
          by (auto simp: CollectInstancesFrom.simps[of c "HeapObject a" scan n ?t] Let_def)
      next
        case lt: True
        let ?xs1 = "xs[n := HeapObject scan]"
        have o0: "\<exists>obj1 :: object. object_at ?t scan = Inr obj1 \<and> cid obj1 = c"
          using a same eq by (auto simp: object_at_with_slots[OF arr])
        have "set_element (HeapObject a) n (HeapObject scan) ?t =
                Inr (?t\<lparr>mem := (mem ?t)(a \<mapsto> Object ((arr\<lparr>slots := xs\<rparr>)\<lparr>slots := ?xs1\<rparr>))\<rparr>)"
          using lt by (simp add: set_element_def object_at_with_slots[OF arr])
        also have "?t\<lparr>mem := (mem ?t)(a \<mapsto> Object ((arr\<lparr>slots := xs\<rparr>)\<lparr>slots := ?xs1\<rparr>))\<rparr> =
                with_slots s a arr ?xs1"
          by (simp add: with_slots_def)
        finally have se: "set_element (HeapObject a) n (HeapObject scan) ?t = Inr (with_slots s a arr ?xs1)" .
        have o1: "\<exists>obj1 :: object. object_at (with_slots s a arr ?xs1) scan = Inr obj1 \<and> heap_size obj1 = heap_size obj"
          using a same by (auto simp: object_at_with_slots[OF arr])
        have ih: "CollectInstancesFrom c (HeapObject a) (scan + heap_size obj) (Suc n) (with_slots s a arr ?xs1) =
           (let is = instances c s bs in
            if Suc n + length is \<le> length ?xs1
            then Inr (Suc n + length is,
                  with_slots s a arr (take (Suc n) ?xs1 @ map HeapObject is @ drop (Suc n + length is) ?xs1))
            else Inl OutOfBounds)"
          using "1.IH"[OF True a b arr c, of "Suc n" ?xs1] lt by simp
        have tk: "take (Suc n) ?xs1 = take n xs @ [HeapObject scan]"
          using lt by (simp add: take_Suc_conv_app_nth)
        from o0 o1 se True top b ih i tk show ?thesis
          by (auto simp: CollectInstancesFrom.simps[of c "HeapObject a" scan n ?t] Let_def)
      qed
    qed
  qed
qed


lemma with_slots_same: "mem s a = Some (Object arr) \<Longrightarrow> with_slots s a arr (slots arr) = s"
  by (simp add: with_slots_def fun_upd_idem)

text \<open>
  Claim C10. \<^verbatim>\<open>CollectInstances(cid, array)\<close> returns the number that
  \<^verbatim>\<open>CountInstances(cid)\<close> returns, the number of objects of to-space whose header
  has that class id, and stores these objects, in ascending address order, into the
  elements 0 .. count - 1 of the array, leaving the other elements alone. Nothing
  compares the count with the number of elements of the array: with fewer elements
  than instances the code writes past the last element.
\<close>

theorem CollectInstances_CountInstances:
  assumes "objects_from (object_start (to_f s)) s = Inr as"
    and "mem s a = Some (Object arr)"
  shows "CountInstances c s = Inr (length (instances c s as)) \<and>
         sorted_wrt (<) (instances c s as) \<and>
         CollectInstances c (HeapObject a) s =
           (if length (instances c s as) \<le> length (slots arr)
            then Inr (length (instances c s as),
                      with_slots s a arr
                        (map HeapObject (instances c s as) @
                         drop (length (instances c s as)) (slots arr)))
            else Inl OutOfBounds)"
proof -
  have 1: "CountInstances c s = Inr (length (instances c s as))"
    using assms(1) by (simp add: CountInstances_def CountInstancesFrom_objects)
  have "sorted_wrt (<) as" using assms(1) by (rule objects_from_sorted)
  then have 2: "sorted_wrt (<) (instances c s as)"
    unfolding instances_def by (rule sorted_wrt_filter)
  have 3: "CollectInstances c (HeapObject a) s =
           (if length (instances c s as) \<le> length (slots arr)
            then Inr (length (instances c s as),
                      with_slots s a arr
                        (map HeapObject (instances c s as) @
                         drop (length (instances c s as)) (slots arr)))
            else Inl OutOfBounds)"
    using CollectInstancesFrom_objects[OF assms(2) assms(1), of 0 "slots arr" c]
    by (simp add: CollectInstances_def with_slots_same[OF assms(2)] Let_def)
  from 1 2 3 show ?thesis by simp
qed

lemma ex_objects_from:
  "objects_from (object_start (to_f ex_heap)) ex_heap =
     Inr [4104, 4168, 4184, 4216, 4232, 4280, 4328, 4344, 4360, 4408, 4472, 4536, 4600, 4664, 4728]"
  by (simp add: objects_from.simps object_at_def object_start_def ex_defs consts_defs cells_simps)

theorem CollectInstances_CountInstances_witness:
  "CountInstances 16 ex_heap = Inr 4 \<and>
   CollectInstances 16 (HeapObject 4104) ex_heap =
     Inr (4, with_slots ex_heap 4104
               (mk_object kArrayCid 64 0 [ex_nil, HeapObject 4184, HeapObject 4232, HeapObject 4280])
               [HeapObject 4184, HeapObject 4216, HeapObject 4328, HeapObject 4344]) \<and>
   CollectInstances 16 (HeapObject 4232) ex_heap = Inl OutOfBounds"
proof -
  have i: "instances 16 ex_heap
             [4104, 4168, 4184, 4216, 4232, 4280, 4328, 4344, 4360, 4408, 4472, 4536, 4600, 4664, 4728] =
           [4184, 4216, 4328, 4344]"
    by (simp add: instances_def cid_at_def ex_defs consts_defs cells_simps)
  have a: "mem ex_heap 4104 =
     Some (Object (mk_object kArrayCid 64 0 [ex_nil, HeapObject 4184, HeapObject 4232, HeapObject 4280]))"
    by (simp add: ex_defs cells_simps)
  have b: "mem ex_heap 4232 =
     Some (Object (mk_object kWeakArrayCid 48 104 [HeapObject 4184, HeapObject 4328, SmallInteger 7]))"
    by (simp add: ex_defs cells_simps)
  from CollectInstances_CountInstances[OF ex_objects_from a, of 16]
       CollectInstances_CountInstances[OF ex_objects_from b, of 16]
  show ?thesis by (simp add: i mk_object_def)
qed

section \<open>Allocation\<close>

definition top_aligned :: "Heap \<Rightarrow> bool" where
  "top_aligned s = (top_f s mod kObjectAlignment = kNewObjectAlignmentOffset)"

lemma grows_top_aligned: "grows s s1 \<Longrightarrow> top_aligned s \<Longrightarrow> top_aligned s1"
proof -
  assume g: "grows s s1" and a: "top_aligned s"
  from g obtain d where d: "top_f s1 = top_f s + d" and k: "kObjectAlignment dvd d"
    by (auto simp: grows_def le_iff_add)
  from k have "(top_f s + d) mod kObjectAlignment = top_f s mod kObjectAlignment"
    by (metis mod_add_right_eq dvd_eq_mod_eq_0 add.right_neutral)
  with a d show ?thesis by (simp add: top_aligned_def)
qed

lemma ScavengeCore_top_aligned:
  assumes "ScavengeCore s = Inr s1"
  shows "top_aligned s1"
proof -
  from assms obtain t1 t2 t3 t4 t5 t6
    where f: "FlipSpaces s = Inr t1" and r: "ProcessRoots t1 = Inr t2"
      and l: "ScavengeLoop (object_start (to_f t2)) t2 = Inr t3"
      and e: "MournEphemeronList t3 = Inr t4" and w: "MournWeakList t4 = Inr t5"
      and c: "MournClassTable t5 = Inr t6"
      and s1: "s1 = MarkUnallocated (from_f t6) (ClearCaches t6)"
    by (auto simp: ScavengeCore_def split: sum.splits)
  have g: "grows t1 t6"
    using ProcessRoots_grows[OF r] ScavengeLoop_grows[OF l] MournEphemeronList_grows[OF e]
      MournWeakList_grows[OF w] MournClassTable_grows[OF c]
    by (blast intro: grows_trans)
  from f have "top_aligned t1"
    by (auto simp: FlipSpaces_def Let_def top_aligned_def split: if_splits)
  from grows_top_aligned[OF g this] s1 show ?thesis
    by (simp add: top_aligned_def MarkUnallocated_def ClearCaches_def)
qed

lemma Scavenge_last_core:
  "Scavenge s = Inr s1 \<Longrightarrow>
     \<exists>s0. ScavengeCore s0 = Inr s1 \<and> \<not> 7 * memory_size (to_f s1) div 8 < used s1"
proof (induction s rule: Scavenge.induct)
  case (1 s)
  from "1.prems" obtain t where c: "ScavengeCore s = Inr t"
    by (auto simp: Scavenge.simps[of s] split: sum.splits)
  show ?case
  proof (cases "7 * memory_size (to_f t) div 8 < used t")
    case False
    with c "1.prems" show ?thesis by (auto simp: Scavenge.simps[of s])
  next
    case True
    with c "1.prems" obtain t2 where g: "Grow_from_space (memory_size (to_f t)) t = Inr t2"
      and r: "Scavenge t2 = Inr s1"
      by (auto simp: Scavenge.simps[of s] split: sum.splits)
    from "1.IH"[OF c True g r] show ?thesis .
  qed
qed

lemma Scavenge_top_aligned: "Scavenge s = Inr s1 \<Longrightarrow> top_aligned s1"
  using Scavenge_last_core ScavengeCore_top_aligned by blast

lemma Grow_top_aligned: "Grow n s = Inr s1 \<Longrightarrow> top_aligned s1"
  by (auto simp: Grow_def split: sum.splits dest: Scavenge_top_aligned)

text \<open>
  \<open>fits n s\<close>: the \<open>n\<close> bytes are left between \<open>top_f\<close> and \<open>end_f\<close>.
  \<open>bump n s\<close>: what a successful allocation returns, the old \<open>top_f\<close> and the heap
  with \<open>top_f\<close> advanced (and the block filled with \<^verbatim>\<open>kUninitializedByte\<close>).
\<close>

definition fits :: "nat \<Rightarrow> Heap \<Rightarrow> bool" where
  "fits n s = (int n \<le> int (end_f s) - int (top_f s))"

definition bump :: "nat \<Rightarrow> Heap \<Rightarrow> nat \<times> Heap" where
  "bump n s =
     (top_f s, s\<lparr>top_f := top_f s + n, mem := unmap (top_f s) (top_f s + n) (mem s)\<rparr>)"

lemma TryAllocate_aligned:
  assumes "n mod kObjectAlignment = 0" and "top_aligned s"
  shows "TryAllocate n s = (if fits n s then Inr (top_f s, s\<lparr>top_f := top_f s + n\<rparr>) else Inr (0, s))"
  using assms by (auto simp: TryAllocate_def fits_def top_aligned_def Let_def)

lemma top_aligned_nonzero: "top_aligned s \<Longrightarrow> top_f s \<noteq> 0"
  by (auto simp: top_aligned_def kNewObjectAlignmentOffset_def kObjectAlignment_def kWordSize_def)

lemma Allocate_chain:
  assumes n: "n mod kObjectAlignment = 0" and a: "top_aligned s"
  shows "Allocate n s =
         (if fits n s then Inr (bump n s)
          else case Scavenge s of
                 Inl e \<Rightarrow> Inl e
               | Inr s2 \<Rightarrow>
                   if fits n s2 then Inr (bump n s2)
                   else case Grow n s2 of
                          Inl e \<Rightarrow> Inl e
                        | Inr s4 \<Rightarrow>
                            if fits n s4 then Inr (bump n s4)
                            else Inl (Fatal ''Failed to allocate''))"
proof (cases "fits n s")
  case True
  with n a top_aligned_nonzero[OF a] show ?thesis
    by (simp add: Allocate_def TryAllocate_aligned bump_def)
next
  case False
  note nf = this
  show ?thesis
  proof (cases "Scavenge s")
    case (Inl e)
    with n a nf show ?thesis by (simp add: Allocate_def TryAllocate_aligned)
  next
    case (Inr s2)
    note a2 = Scavenge_top_aligned[OF Inr]
    show ?thesis
    proof (cases "fits n s2")
      case True
      with n a nf Inr a2 top_aligned_nonzero[OF a2] show ?thesis
        by (simp add: Allocate_def TryAllocate_aligned bump_def)
    next
      case False
      note nf2 = this
      show ?thesis
      proof (cases "Grow n s2")
        case (Inl e)
        with n a nf Inr a2 nf2 show ?thesis by (simp add: Allocate_def TryAllocate_aligned)
      next
        case s4: (Inr s4)
        note a4 = Grow_top_aligned[OF s4]
        with n a nf Inr a2 nf2 s4 top_aligned_nonzero[OF a4] show ?thesis
          by (simp add: Allocate_def TryAllocate_aligned bump_def)
      qed
    qed
  qed
qed

text \<open>
  Claim C7. For an aligned size, \<^verbatim>\<open>TryAllocate\<close> returns the old \<open>top\<close> and advances
  \<open>top\<close> by the size exactly when \<open>end - top \<ge> size\<close>, and otherwise returns 0 and
  changes nothing. \<^verbatim>\<open>Allocate\<close> tries it, then scavenges and tries again, then grows
  and tries again, and then is fatal; it never returns 0.
\<close>

theorem Allocate_fallback_chain:
  assumes "n mod kObjectAlignment = 0" and "top_aligned s"
  shows "TryAllocate n s =
           (if fits n s then Inr (top_f s, s\<lparr>top_f := top_f s + n\<rparr>) else Inr (0, s)) \<and>
         Allocate n s =
           (if fits n s then Inr (bump n s)
            else case Scavenge s of
                   Inl e \<Rightarrow> Inl e
                 | Inr s2 \<Rightarrow>
                     if fits n s2 then Inr (bump n s2)
                     else case Grow n s2 of
                            Inl e \<Rightarrow> Inl e
                          | Inr s4 \<Rightarrow>
                              if fits n s4 then Inr (bump n s4)
                              else Inl (Fatal ''Failed to allocate'')) \<and>
         (\<forall>s1. Allocate n s \<noteq> Inr (0, s1))"
proof -
  have nz: "\<And>t. top_aligned t \<Longrightarrow> fst (bump n t) \<noteq> 0"
    by (simp add: bump_def top_aligned_nonzero)
  have "\<forall>s1. Allocate n s \<noteq> Inr (0, s1)"
    unfolding Allocate_chain[OF assms]
    using nz[OF assms(2)] nz[OF Scavenge_top_aligned] nz[OF Grow_top_aligned]
    by (auto split: sum.splits if_splits simp: bump_def dest!: Scavenge_top_aligned Grow_top_aligned top_aligned_nonzero)
  with TryAllocate_aligned[OF assms] Allocate_chain[OF assms] show ?thesis by simp
qed

theorem Allocate_fallback_chain_witness:
  "16 mod kObjectAlignment = 0 \<and> top_aligned ex_heap \<and>
   TryAllocate 16 ex_heap = Inr (4792, ex_heap\<lparr>top_f := 4808\<rparr>) \<and>
   Allocate 16 ex_heap = Inr (bump 16 ex_heap) \<and>
   TryAllocate 512 ex_heap = Inr (0, ex_heap) \<and>
   (\<forall>s1. Allocate 512 ex_heap \<noteq> Inr (0, s1))"
proof -
  have n: "16 mod kObjectAlignment = 0" "512 mod kObjectAlignment = 0"
    by (simp_all add: consts_defs)
  have a: "top_aligned ex_heap" by (simp add: top_aligned_def ex_defs consts_defs)
  have f: "fits 16 ex_heap" "\<not> fits 512 ex_heap" "top_f ex_heap = 4792"
    by (simp_all add: fits_def ex_defs)
  from Allocate_fallback_chain[OF n(1) a] f
  have 1: "TryAllocate 16 ex_heap = Inr (4792, ex_heap\<lparr>top_f := 4808\<rparr>)"
    "Allocate 16 ex_heap = Inr (bump 16 ex_heap)"
    by simp_all
  from Allocate_fallback_chain[OF n(2) a]
  have 2: "TryAllocate 512 ex_heap = (if fits 512 ex_heap then Inr (top_f ex_heap, ex_heap\<lparr>top_f := top_f ex_heap + 512\<rparr>) else Inr (0, ex_heap))"
    and 3: "\<forall>s1. Allocate 512 ex_heap \<noteq> Inr (0, s1)"
    by blast+
  from 2 f have 4: "TryAllocate 512 ex_heap = Inr (0, ex_heap)" by simp
  from n(1) a 1 3 4 show ?thesis by blast
qed

section \<open>Growth\<close>














section \<open>The class table under become\<close>





















end
